theory Spec2Isabelle
  imports Main "HOL-Library.Multiset"
begin

section \<open>The todo store and its simulated resource API\<close>

text \<open>
  A shallow embedding of \<^verbatim>\<open>todoApi.ts\<close> (the persistent store shim and the simulated
  resource API) together with the types of \<^verbatim>\<open>types.ts\<close>.

  What the program takes from its runtime is an explicit environment:
  \<^item> \<^verbatim>\<open>nanoid()\<close> is the sequence \<open>nanoid_at\<close>, read at the position \<open>nanoidCalls\<close>;
  \<^item> \<^verbatim>\<open>new Date()\<close> is the sequence \<open>clock_at\<close> of clock readings (milliseconds since
    the epoch), read at the position \<open>clockReads\<close>;
  \<^item> \<^verbatim>\<open>new Date(s)\<close> on a string is \<open>Date_parse\<close>, with \<open>None\<close> for an Invalid Date;
  \<^item> \<^verbatim>\<open>d.setDate(d.getDate() + n)\<close> (local calendar arithmetic) is \<open>addLocalDays\<close>;
  \<^item> \<^verbatim>\<open>isBrowser()\<close> is the flag \<open>isBrowser\<close>.

  A canonical date-time string (the result of \<^verbatim>\<open>toISOString\<close>) is represented by the
  time value it denotes, an \<open>int\<close> of milliseconds; \<^verbatim>\<open>toISOString\<close> of an Invalid Date
  throws a RangeError. This takes the types of \<^verbatim>\<open>types.ts\<close> at their word: the
  timestamps of a stored \<^verbatim>\<open>Todo\<close> are such strings, and a stored item that \<^verbatim>\<open>JSON.parse\<close>
  accepts is a \<^verbatim>\<open>Todo[]\<close>. The code checks neither; what \<^verbatim>\<open>list\<close> does on a store
  where they do not hold is the subject of a second model of the store shim, in which the
  stored text may be \<^verbatim>\<open>null\<close> and the timestamps are strings of any kind. The artificial
  latency of \<^verbatim>\<open>delay\<close> is not modelled: \<open>delay\<close> hands its argument on. Writing to the
  local storage is assumed not to fail.
\<close>

subsection \<open>Data model (types.ts)\<close>

type_synonym timestamp = int

record todo =
  todoId :: string
  title :: string
  description :: string
  dueDate :: "timestamp option"
  completed :: bool
  createdAt :: timestamp
  updatedAt :: timestamp

text \<open>
  An optional property of an input object: the key is absent, the key is present with the
  value \<^verbatim>\<open>undefined\<close>, or the key is present with a value. For \<^verbatim>\<open>dueDate\<close> the value
  is \<open>None\<close> for \<^verbatim>\<open>null\<close> and \<open>Some s\<close> for the string \<open>s\<close>.
\<close>

datatype 'a optional = Absent | Undefined | Value 'a

record CreateTodoInput =
  cTitle :: string
  cDescription :: "string optional"
  cDueDate :: "string option optional"
  cCompleted :: "bool optional"

record UpdateTodoInput =
  uTitle :: "string optional"
  uDescription :: "string optional"
  uDueDate :: "string option optional"
  uCompleted :: "bool optional"

text \<open>\<^verbatim>\<open>'k' in input\<close>.\<close>

definition hasKey :: "'a optional \<Rightarrow> bool" where
  "hasKey f = (f \<noteq> Absent)"

datatype error = NotFound | RangeError

subsection \<open>Runtime environment and program state\<close>

record env =
  isBrowser :: bool
  nanoid_at :: "nat \<Rightarrow> string"
  clock_at :: "nat \<Rightarrow> timestamp"
  Date_parse :: "string \<Rightarrow> timestamp option"
  addLocalDays :: "timestamp \<Rightarrow> int \<Rightarrow> timestamp"

text \<open>
  The item under \<^verbatim>\<open>STORAGE_KEY\<close> of a store that holds what the cast
  \<^verbatim>\<open>const parsed: Todo[] = JSON.parse(raw)\<close> says it holds: no item or the empty string
  (both falsy), a string that \<^verbatim>\<open>JSON.parse\<close> rejects, or the serialisation of a
  \<^verbatim>\<open>Todo[]\<close>, represented by the list it parses to. A stored text that \<^verbatim>\<open>JSON.parse\<close>
  accepts and that is not a \<^verbatim>\<open>Todo[]\<close> is a \<open>storage_text\<close> of the second model.
\<close>

datatype stored_item = NoItem | Unparsable | Serialized "todo list"

text \<open>\<open>persistCalls\<close> is a ghost counter of the calls of \<open>persist\<close>; nothing reads it.\<close>

record world =
  inMemoryStore :: "todo list"
  localStorage :: stored_item
  nanoidCalls :: nat
  clockReads :: nat
  persistCalls :: nat

subsection \<open>Store shim\<close>

text \<open>
  \<^verbatim>\<open>clone = JSON.parse(JSON.stringify(value))\<close>: on values of type \<^verbatim>\<open>Todo\<close> and \<^verbatim>\<open>Todo[]\<close>
  (strings, booleans and \<^verbatim>\<open>null\<close>) the round trip through JSON yields an equal value. The
  identity of the objects is the subject of the heap model further down.
\<close>

definition clone :: "'a \<Rightarrow> 'a" where
  "clone v = v"

definition persist :: "env \<Rightarrow> todo list \<Rightarrow> world \<Rightarrow> world" where
  "persist e todos w =
     (let w1 = w\<lparr>inMemoryStore := clone todos, persistCalls := Suc (persistCalls w)\<rparr>
      in if isBrowser e then w1\<lparr>localStorage := Serialized todos\<rparr> else w1)"

definition readStore :: "env \<Rightarrow> world \<Rightarrow> todo list \<times> world" where
  "readStore e w =
     (if isBrowser e then
        (case localStorage w of
           Serialized parsed \<Rightarrow> (clone parsed, w\<lparr>inMemoryStore := parsed\<rparr>)
         | Unparsable \<Rightarrow> (clone (inMemoryStore w), w)
         | NoItem \<Rightarrow> (clone (inMemoryStore w), w))
      else (clone (inMemoryStore w), w))"

definition day_ms :: int where
  "day_ms = 1000 * 60 * 60 * 24"

definition seedTodos :: "env \<Rightarrow> timestamp \<Rightarrow> nat \<Rightarrow> todo list" where
  "seedTodos e now i =
     [\<lparr>todoId = nanoid_at e i,
       title = ''Plan weekly sprint'',
       description = ''Collect feature requests, draft priorities, and sync with the team for next week's roadmap.'',
       dueDate = Some (addLocalDays e now 1),
       completed = False,
       createdAt = now,
       updatedAt = now\<rparr>,
      \<lparr>todoId = nanoid_at e (i + 1),
       title = ''Refactor authentication module'',
       description = ''Simplify provider logic and add integration tests for the refresh token flow.'',
       dueDate = Some (addLocalDays e now 7),
       completed = False,
       createdAt = now - day_ms * 2,
       updatedAt = now - day_ms * 2\<rparr>,
      \<lparr>todoId = nanoid_at e (i + 2),
       title = ''Archive stale feature flags'',
       description = ''Audit LaunchDarkly dashboard and shut down flags that shipped last quarter.'',
       dueDate = None,
       completed = True,
       createdAt = now - day_ms * 7,
       updatedAt = now - day_ms * 5\<rparr>]"

definition ensureSeedData :: "env \<Rightarrow> todo list \<Rightarrow> world \<Rightarrow> todo list \<times> world" where
  "ensureSeedData e todos w =
     (if length todos > 0 then (todos, w)
      else
        let now = clock_at e (clockReads w);
            seeded = seedTodos e now (nanoidCalls w);
            w1 = w\<lparr>clockReads := Suc (clockReads w), nanoidCalls := nanoidCalls w + 3\<rparr>
        in (clone seeded, persist e seeded w1))"

text \<open>\<^verbatim>\<open>ensureSeedData(readStore())\<close>, the first statement of every operation.\<close>

definition loadTodos :: "env \<Rightarrow> world \<Rightarrow> todo list \<times> world" where
  "loadTodos e w = (case readStore e w of (todos, w1) \<Rightarrow> ensureSeedData e todos w1)"

text \<open>
  \<^verbatim>\<open>[...todos].sort((a, b) => new Date(b.createdAt).getTime() - new Date(a.createdAt).getTime())\<close>.
  \<^verbatim>\<open>Array.prototype.sort\<close> is a stable sort; it is modelled by insertion, an element going
  before the first one that the comparator does not put ahead of it.
\<close>

definition compareCreatedAtDesc :: "todo \<Rightarrow> todo \<Rightarrow> int" where
  "compareCreatedAtDesc a b = createdAt b - createdAt a"

fun insertSorted :: "todo \<Rightarrow> todo list \<Rightarrow> todo list" where
  "insertSorted x [] = [x]"
| "insertSorted x (y # ys) =
     (if compareCreatedAtDesc x y \<le> 0 then x # y # ys else y # insertSorted x ys)"

definition sortByCreatedAtDesc :: "todo list \<Rightarrow> todo list" where
  "sortByCreatedAtDesc todos = foldr insertSorted todos []"

subsection \<open>Resource API\<close>

text \<open>
  \<^verbatim>\<open>String.prototype.trim\<close> removes the white space and the line terminators of
  ECMAScript from both ends. A \<open>string\<close> is a list of code units below 256 (the type
  \<open>char\<close>); among these the white space is TAB (U+0009), VT (U+000B), FF (U+000C), SPACE
  (U+0020) and NO-BREAK SPACE (U+00A0), and the line terminators are LF (U+000A) and CR
  (U+000D). The other code points that \<^verbatim>\<open>trim\<close> removes (U+1680, U+2000 to U+200A, U+2028,
  U+2029, U+202F, U+205F, U+3000 and U+FEFF) lie above 255 and are not characters of a
  \<open>string\<close>.
\<close>

definition isWhiteSpace :: "char \<Rightarrow> bool" where
  "isWhiteSpace c =
     (c \<in> {CHR 0x09, CHR 0x0A, CHR 0x0B, CHR 0x0C, CHR 0x0D, CHR 0x20, CHR 0xA0})"

definition trim :: "string \<Rightarrow> string" where
  "trim s = rev (dropWhile isWhiteSpace (rev (dropWhile isWhiteSpace s)))"

text \<open>
  The expression \<^verbatim>\<open>input.dueDate ? new Date(input.dueDate).toISOString() : null\<close> of
  \<^verbatim>\<open>create\<close> and \<^verbatim>\<open>update\<close>. \<open>truthyDueDate\<close> is the string when \<^verbatim>\<open>input.dueDate\<close> is
  truthy: \<^verbatim>\<open>undefined\<close>, \<^verbatim>\<open>null\<close> and the empty string are falsy.
\<close>

definition truthyDueDate :: "string option optional \<Rightarrow> string option" where
  "truthyDueDate d =
     (case d of
        Value (Some s) \<Rightarrow> if s = [] then None else Some s
      | _ \<Rightarrow> None)"

definition normalizeDueDate :: "env \<Rightarrow> string option optional \<Rightarrow> error + timestamp option" where
  "normalizeDueDate e d =
     (case truthyDueDate d of
        None \<Rightarrow> Inr None
      | Some s \<Rightarrow>
          (case Date_parse e s of
             None \<Rightarrow> Inl RangeError
           | Some t \<Rightarrow> Inr (Some t)))"

text \<open>\<^verbatim>\<open>Array.prototype.findIndex\<close>, with \<open>None\<close> for \<^verbatim>\<open>-1\<close>.\<close>

fun findIndex :: "('a \<Rightarrow> bool) \<Rightarrow> 'a list \<Rightarrow> nat option" where
  "findIndex P [] = None"
| "findIndex P (x # xs) =
     (if P x then Some 0 else map_option Suc (findIndex P xs))"

text \<open>\<^verbatim>\<open>next.splice(index, 1)\<close> for an index inside the array.\<close>

definition splice1 :: "nat \<Rightarrow> 'a list \<Rightarrow> 'a list" where
  "splice1 i xs = take i xs @ drop (Suc i) xs"

definition delay :: "'a \<Rightarrow> 'a" where
  "delay v = v"

definition todoApi_list :: "env \<Rightarrow> world \<Rightarrow> (error + todo list) \<times> world" where
  "todoApi_list e w =
     (case loadTodos e w of
        (todos, w1) \<Rightarrow> (Inr (delay (sortByCreatedAtDesc todos)), w1))"

definition todoApi_get :: "env \<Rightarrow> string \<Rightarrow> world \<Rightarrow> (error + todo) \<times> world" where
  "todoApi_get e i w =
     (case loadTodos e w of
        (todos, w1) \<Rightarrow>
          (case find (\<lambda>t. todoId t = i) todos of
             None \<Rightarrow> (Inl NotFound, w1)
           | Some match \<Rightarrow> (Inr (delay (clone match)), w1)))"

text \<open>
  \<^verbatim>\<open>create\<close> reads the clock, then builds the object literal in the order of its
  properties: \<^verbatim>\<open>nanoid()\<close> first, then the due date, which throws before the store is read.
\<close>

definition todoApi_create :: "env \<Rightarrow> CreateTodoInput \<Rightarrow> world \<Rightarrow> (error + todo) \<times> world" where
  "todoApi_create e input w =
     (let now = clock_at e (clockReads w);
          newId = nanoid_at e (nanoidCalls w);
          w1 = w\<lparr>clockReads := Suc (clockReads w), nanoidCalls := Suc (nanoidCalls w)\<rparr>
      in case normalizeDueDate e (cDueDate input) of
           Inl err \<Rightarrow> (Inl err, w1)
         | Inr due \<Rightarrow>
             let t = \<lparr>todoId = newId,
                      title = trim (cTitle input),
                      description = (case cDescription input of Value d \<Rightarrow> trim d | _ \<Rightarrow> []),
                      dueDate = due,
                      completed = (case cCompleted input of Value c \<Rightarrow> c | _ \<Rightarrow> False),
                      createdAt = now,
                      updatedAt = now\<rparr>
             in case loadTodos e w1 of
                  (todos, w2) \<Rightarrow>
                    let next = sortByCreatedAtDesc (t # todos)
                    in (Inr (delay (clone t)), persist e next w2))"

text \<open>
  The object literal of \<^verbatim>\<open>update\<close>: \<^verbatim>\<open>title\<close>, \<^verbatim>\<open>description\<close> and \<^verbatim>\<open>completed\<close> are taken
  from the input when the key is present and its value is not \<^verbatim>\<open>undefined\<close>; \<^verbatim>\<open>dueDate\<close>
  whenever the key is present.
\<close>

definition applyUpdate :: "todo \<Rightarrow> UpdateTodoInput \<Rightarrow> timestamp option \<Rightarrow> timestamp \<Rightarrow> todo" where
  "applyUpdate existing input due now =
     existing\<lparr>
       title := (case uTitle input of Value s \<Rightarrow> trim s | _ \<Rightarrow> title existing),
       description := (case uDescription input of Value s \<Rightarrow> trim s | _ \<Rightarrow> description existing),
       dueDate := (if hasKey (uDueDate input) then due else dueDate existing),
       completed := (case uCompleted input of Value c \<Rightarrow> c | _ \<Rightarrow> completed existing),
       updatedAt := now\<rparr>"

definition todoApi_update ::
  "env \<Rightarrow> string \<Rightarrow> UpdateTodoInput \<Rightarrow> world \<Rightarrow> (error + todo) \<times> world" where
  "todoApi_update e i input w =
     (case loadTodos e w of
        (todos, w1) \<Rightarrow>
          (case findIndex (\<lambda>t. todoId t = i) todos of
             None \<Rightarrow> (Inl NotFound, w1)
           | Some index \<Rightarrow>
               (case (if hasKey (uDueDate input) then normalizeDueDate e (uDueDate input)
                      else Inr None) of
                  Inl err \<Rightarrow> (Inl err, w1)
                | Inr due \<Rightarrow>
                    let existing = todos ! index;
                        now = clock_at e (clockReads w1);
                        w2 = w1\<lparr>clockReads := Suc (clockReads w1)\<rparr>;
                        updated = applyUpdate existing input due now;
                        next = todos[index := updated]
                    in (Inr (delay (clone updated)), persist e next w2))))"

definition todoApi_toggleCompletion :: "env \<Rightarrow> string \<Rightarrow> world \<Rightarrow> (error + todo) \<times> world" where
  "todoApi_toggleCompletion e i w =
     (case loadTodos e w of
        (todos, w1) \<Rightarrow>
          (case findIndex (\<lambda>t. todoId t = i) todos of
             None \<Rightarrow> (Inl NotFound, w1)
           | Some index \<Rightarrow>
               let existing = todos ! index;
                   now = clock_at e (clockReads w1);
                   w2 = w1\<lparr>clockReads := Suc (clockReads w1)\<rparr>;
                   updated = existing\<lparr>completed := \<not> completed existing, updatedAt := now\<rparr>;
                   next = todos[index := updated]
               in (Inr (delay (clone updated)), persist e next w2)))"

definition todoApi_delete :: "env \<Rightarrow> string \<Rightarrow> world \<Rightarrow> (error + unit) \<times> world" where
  "todoApi_delete e i w =
     (case loadTodos e w of
        (todos, w1) \<Rightarrow>
          (case findIndex (\<lambda>t. todoId t = i) todos of
             None \<Rightarrow> (Inl NotFound, w1)
           | Some index \<Rightarrow>
               let next = splice1 index todos
               in (Inr (delay ()), persist e next w1)))"

text \<open>The persisted collection: what \<open>readStore\<close> returns.\<close>

definition persisted :: "env \<Rightarrow> world \<Rightarrow> todo list" where
  "persisted e w = fst (readStore e w)"

subsection \<open>Sequences of operations and the invariants of the data model\<close>

datatype operation =
    Create CreateTodoInput
  | Update string UpdateTodoInput
  | ToggleCompletion string
  | Delete string

text \<open>The state after a call, whether it returned or threw.\<close>

fun perform :: "env \<Rightarrow> operation \<Rightarrow> world \<Rightarrow> world" where
  "perform e (Create input) w = snd (todoApi_create e input w)"
| "perform e (Update i input) w = snd (todoApi_update e i input w)"
| "perform e (ToggleCompletion i) w = snd (todoApi_toggleCompletion e i w)"
| "perform e (Delete i) w = snd (todoApi_delete e i w)"

fun run :: "env \<Rightarrow> operation list \<Rightarrow> world \<Rightarrow> world" where
  "run e [] w = w"
| "run e (op # ops) w = run e ops (perform e op w)"

definition uniqueIds :: "todo list \<Rightarrow> bool" where
  "uniqueIds todos = distinct (map todoId todos)"

definition timestampsOrdered :: "todo list \<Rightarrow> bool" where
  "timestampsOrdered todos = (\<forall>t\<in>set todos. createdAt t \<le> updatedAt t)"

text \<open>
  Two assumptions on the environment, from the current position of the two sequences on:
  the values of \<^verbatim>\<open>nanoid()\<close> differ from each other and from the ids in the persisted
  collection; the clock does not run backwards and does not read earlier than a
  \<open>createdAt\<close> in the persisted collection.
\<close>

definition freshIds :: "env \<Rightarrow> world \<Rightarrow> bool" where
  "freshIds e w =
     ((\<forall>j k. nanoidCalls w \<le> j \<and> j < k \<longrightarrow> nanoid_at e j \<noteq> nanoid_at e k)
      \<and> (\<forall>t\<in>set (persisted e w). \<forall>k\<ge>nanoidCalls w. nanoid_at e k \<noteq> todoId t))"

definition clockAhead :: "env \<Rightarrow> world \<Rightarrow> bool" where
  "clockAhead e w =
     ((\<forall>j k. clockReads w \<le> j \<and> j \<le> k \<longrightarrow> clock_at e j \<le> clock_at e k)
      \<and> (\<forall>t\<in>set (persisted e w). \<forall>k\<ge>clockReads w. createdAt t \<le> clock_at e k))"

definition storeInvariant :: "env \<Rightarrow> world \<Rightarrow> bool" where
  "storeInvariant e w =
     (uniqueIds (persisted e w) \<and> timestampsOrdered (persisted e w)
      \<and> freshIds e w \<and> clockAhead e w)"

subsection \<open>The store shim on a heap of objects\<close>

text \<open>
  The same \<^verbatim>\<open>clone\<close>, \<^verbatim>\<open>persist\<close> and \<^verbatim>\<open>readStore\<close> with the identity of the objects made
  explicit. An array is an object that holds references to \<^verbatim>\<open>Todo\<close> objects; the module
  variable \<^verbatim>\<open>inMemoryStore\<close> holds a reference to an array. New objects are allocated at
  \<open>nextAddr\<close>, upwards. \<^verbatim>\<open>JSON.stringify\<close> reads an array and its elements from the heap
  (its text is represented by the list of records it encodes; a reference that does not
  lead to a \<^verbatim>\<open>Todo\<close> object, which a \<^verbatim>\<open>Todo[]\<close> does not hold, is passed over);
  \<^verbatim>\<open>JSON.parse\<close> allocates one new object for each record, then the new array.
\<close>

type_synonym addr = nat

datatype obj = TodoObj todo | ArrayObj "addr list"

record heap_world =
  cells :: "addr \<Rightarrow> obj option"
  nextAddr :: addr
  inMemoryStoreRef :: addr
  localStorageItem :: stored_item

definition allocate :: "obj \<Rightarrow> heap_world \<Rightarrow> addr \<times> heap_world" where
  "allocate v h =
     (nextAddr h, h\<lparr>cells := (cells h)(nextAddr h \<mapsto> v), nextAddr := Suc (nextAddr h)\<rparr>)"

fun readTodos :: "(addr \<Rightarrow> obj option) \<Rightarrow> addr list \<Rightarrow> todo list" where
  "readTodos c [] = []"
| "readTodos c (a # as) =
     (case c a of
        Some (TodoObj t) \<Rightarrow> t # readTodos c as
      | _ \<Rightarrow> readTodos c as)"

definition elementsOf :: "heap_world \<Rightarrow> addr \<Rightarrow> addr list" where
  "elementsOf h a = (case cells h a of Some (ArrayObj es) \<Rightarrow> es | _ \<Rightarrow> [])"

definition JSON_stringify :: "heap_world \<Rightarrow> addr \<Rightarrow> todo list" where
  "JSON_stringify h a = readTodos (cells h) (elementsOf h a)"

fun allocTodos :: "todo list \<Rightarrow> heap_world \<Rightarrow> addr list \<times> heap_world" where
  "allocTodos [] h = ([], h)"
| "allocTodos (t # ts) h =
     (case allocate (TodoObj t) h of
        (a, h1) \<Rightarrow> (case allocTodos ts h1 of (as, h2) \<Rightarrow> (a # as, h2)))"

definition JSON_parse :: "todo list \<Rightarrow> heap_world \<Rightarrow> addr \<times> heap_world" where
  "JSON_parse ts h = (case allocTodos ts h of (as, h1) \<Rightarrow> allocate (ArrayObj as) h1)"

definition cloneH :: "addr \<Rightarrow> heap_world \<Rightarrow> addr \<times> heap_world" where
  "cloneH a h = JSON_parse (JSON_stringify h a) h"

definition persistH :: "env \<Rightarrow> addr \<Rightarrow> heap_world \<Rightarrow> heap_world" where
  "persistH e todos h =
     (case cloneH todos h of
        (c, h1) \<Rightarrow>
          let h2 = h1\<lparr>inMemoryStoreRef := c\<rparr>
          in if isBrowser e then h2\<lparr>localStorageItem := Serialized (JSON_stringify h2 todos)\<rparr>
             else h2)"

definition readStoreH :: "env \<Rightarrow> heap_world \<Rightarrow> addr \<times> heap_world" where
  "readStoreH e h =
     (if isBrowser e then
        (case localStorageItem h of
           Serialized raw \<Rightarrow>
             (case JSON_parse raw h of
                (parsed, h1) \<Rightarrow> cloneH parsed (h1\<lparr>inMemoryStoreRef := parsed\<rparr>))
         | Unparsable \<Rightarrow> cloneH (inMemoryStoreRef h) h
         | NoItem \<Rightarrow> cloneH (inMemoryStoreRef h) h)
      else cloneH (inMemoryStoreRef h) h)"

text \<open>
  The objects of an array: the array and its elements. An array is allocated when its
  objects lie below \<open>nextAddr\<close>; a heap is well formed when the array of the store is.
\<close>

definition objectsOf :: "heap_world \<Rightarrow> addr \<Rightarrow> addr set" where
  "objectsOf h a = insert a (set (elementsOf h a))"

definition allocated :: "heap_world \<Rightarrow> addr \<Rightarrow> bool" where
  "allocated h a = (\<forall>b\<in>objectsOf h a. b < nextAddr h)"

definition wellFormedH :: "heap_world \<Rightarrow> bool" where
  "wellFormedH h = allocated h (inMemoryStoreRef h)"

text \<open>
  What a caller can do with the copy \<open>r\<close> it was handed in the heap \<open>h\<close>: change the
  objects of the copy in any way and allocate new objects. It has no reference to any
  other object, and the module variable and the local storage are not its to write.
\<close>

definition mutatedCopy :: "heap_world \<Rightarrow> addr \<Rightarrow> heap_world \<Rightarrow> bool" where
  "mutatedCopy h r h' =
     (inMemoryStoreRef h' = inMemoryStoreRef h
      \<and> localStorageItem h' = localStorageItem h
      \<and> nextAddr h \<le> nextAddr h'
      \<and> (\<forall>a. a < nextAddr h \<and> a \<notin> objectsOf h r \<longrightarrow> cells h' a = cells h a))"

text \<open>The collection that \<open>readStoreH\<close> returns, as a value.\<close>

definition readBack :: "env \<Rightarrow> heap_world \<Rightarrow> todo list" where
  "readBack e h = (case readStoreH e h of (r, h') \<Rightarrow> JSON_stringify h' r)"

text \<open>A heap world and a world of the value model that hold the same store.\<close>

definition represents :: "heap_world \<Rightarrow> world \<Rightarrow> bool" where
  "represents h w =
     (inMemoryStore w = JSON_stringify h (inMemoryStoreRef h)
      \<and> localStorage w = localStorageItem h)"

text \<open>The collection that the store holds: what the next \<open>readStoreH\<close> will copy.\<close>

definition storedValue :: "env \<Rightarrow> heap_world \<Rightarrow> todo list" where
  "storedValue e h =
     (if isBrowser e then
        (case localStorageItem h of
           Serialized raw \<Rightarrow> raw
         | Unparsable \<Rightarrow> JSON_stringify h (inMemoryStoreRef h)
         | NoItem \<Rightarrow> JSON_stringify h (inMemoryStoreRef h))
      else JSON_stringify h (inMemoryStoreRef h))"

subsection \<open>The store as the storage holds it\<close>

text \<open>
  \<^verbatim>\<open>const parsed: Todo[] = JSON.parse(raw)\<close> is an unchecked cast, and nothing checks that
  the \<^verbatim>\<open>createdAt\<close> of a stored record is a date-time string. The model above takes both
  for granted. For \<^verbatim>\<open>list\<close> the store shim is modelled a second time without them: a
  stored record has the strings that the type \<^verbatim>\<open>Todo\<close> declares, whatever they are, and
  the value that \<^verbatim>\<open>JSON.parse\<close> returns for the stored text is an array of such records or
  \<^verbatim>\<open>null\<close>. (Other JSON values, such as a number or an array of numbers, are not values of
  this type.) The runtime has one more function, \<^verbatim>\<open>toISOString\<close> on a time value.
\<close>

record stored_todo =
  sId :: string
  sTitle :: string
  sDescription :: string
  sDueDate :: "string option"
  sCompleted :: bool
  sCreatedAt :: string
  sUpdatedAt :: string

datatype js_value = JsNull | JsTodos "stored_todo list"

text \<open>
  The item under \<^verbatim>\<open>STORAGE_KEY\<close>: no item or the empty string (both falsy), a string
  that \<^verbatim>\<open>JSON.parse\<close> rejects, or the JSON text of a value.
\<close>

datatype storage_text = NoText | NotJson | JsonText js_value

datatype js_error = TypeError

record runtime = env +
  toISOString :: "timestamp \<Rightarrow> string"

record raw_world =
  rawInMemoryStore :: js_value
  rawLocalStorage :: storage_text
  rawNanoidCalls :: nat
  rawClockReads :: nat

text \<open>
  \<^verbatim>\<open>persist\<close> and \<^verbatim>\<open>readStore\<close>. The round trip of \<open>clone\<close> through JSON yields an equal
  value on \<^verbatim>\<open>null\<close> as well: \<^verbatim>\<open>JSON.stringify(null)\<close> is the text \<^verbatim>\<open>null\<close>.
\<close>

definition persistRaw :: "runtime \<Rightarrow> stored_todo list \<Rightarrow> raw_world \<Rightarrow> raw_world" where
  "persistRaw e todos s =
     (let s1 = s\<lparr>rawInMemoryStore := clone (JsTodos todos)\<rparr>
      in if isBrowser e then s1\<lparr>rawLocalStorage := JsonText (JsTodos todos)\<rparr> else s1)"

definition readStoreRaw :: "runtime \<Rightarrow> raw_world \<Rightarrow> js_value \<times> raw_world" where
  "readStoreRaw e s =
     (if isBrowser e then
        (case rawLocalStorage s of
           JsonText parsed \<Rightarrow> (clone parsed, s\<lparr>rawInMemoryStore := parsed\<rparr>)
         | NotJson \<Rightarrow> (clone (rawInMemoryStore s), s)
         | NoText \<Rightarrow> (clone (rawInMemoryStore s), s))
      else (clone (rawInMemoryStore s), s))"

definition seedTodosRaw :: "runtime \<Rightarrow> timestamp \<Rightarrow> nat \<Rightarrow> stored_todo list" where
  "seedTodosRaw e now i =
     [\<lparr>sId = nanoid_at e i,
       sTitle = ''Plan weekly sprint'',
       sDescription = ''Collect feature requests, draft priorities, and sync with the team for next week's roadmap.'',
       sDueDate = Some (toISOString e (addLocalDays e now 1)),
       sCompleted = False,
       sCreatedAt = toISOString e now,
       sUpdatedAt = toISOString e now\<rparr>,
      \<lparr>sId = nanoid_at e (i + 1),
       sTitle = ''Refactor authentication module'',
       sDescription = ''Simplify provider logic and add integration tests for the refresh token flow.'',
       sDueDate = Some (toISOString e (addLocalDays e now 7)),
       sCompleted = False,
       sCreatedAt = toISOString e (now - day_ms * 2),
       sUpdatedAt = toISOString e (now - day_ms * 2)\<rparr>,
      \<lparr>sId = nanoid_at e (i + 2),
       sTitle = ''Archive stale feature flags'',
       sDescription = ''Audit LaunchDarkly dashboard and shut down flags that shipped last quarter.'',
       sDueDate = None,
       sCompleted = True,
       sCreatedAt = toISOString e (now - day_ms * 7),
       sUpdatedAt = toISOString e (now - day_ms * 5)\<rparr>]"

text \<open>
  \<^verbatim>\<open>ensureSeedData\<close>: reading the property \<^verbatim>\<open>length\<close> of \<^verbatim>\<open>null\<close> throws a TypeError.
\<close>

definition ensureSeedDataRaw ::
  "runtime \<Rightarrow> js_value \<Rightarrow> raw_world \<Rightarrow> (js_error + stored_todo list) \<times> raw_world" where
  "ensureSeedDataRaw e v s =
     (case v of
        JsNull \<Rightarrow> (Inl TypeError, s)
      | JsTodos todos \<Rightarrow>
          if length todos > 0 then (Inr todos, s)
          else
            let now = clock_at e (rawClockReads s);
                seeded = seedTodosRaw e now (rawNanoidCalls s);
                s1 = s\<lparr>rawClockReads := Suc (rawClockReads s),
                        rawNanoidCalls := rawNanoidCalls s + 3\<rparr>
            in (Inr (clone seeded), persistRaw e seeded s1))"

text \<open>
  The comparator of \<^verbatim>\<open>sortByCreatedAtDesc\<close> on strings:
  \<^verbatim>\<open>new Date(s).getTime()\<close> is the time value of \<open>s\<close>, or NaN (\<open>None\<close>) when \<open>s\<close> is not a
  date; a difference with NaN is NaN. \<^verbatim>\<open>Array.prototype.sort\<close> takes a comparator result
  of NaN for \<^verbatim>\<open>+0\<close>: the two elements count as equal. The sort is the stable insertion of the
  first model. This is the result of \<^verbatim>\<open>Array.prototype.sort\<close> whenever the comparator is
  consistent on the elements of the array (when all of them are dates, and on any two
  elements); on other arrays ECMAScript leaves the order to the implementation, and
  nothing below depends on it.
\<close>

definition getTime :: "runtime \<Rightarrow> string \<Rightarrow> timestamp option" where
  "getTime e s = Date_parse e s"

definition compareCreatedAtDescRaw :: "runtime \<Rightarrow> stored_todo \<Rightarrow> stored_todo \<Rightarrow> int option" where
  "compareCreatedAtDescRaw e a b =
     (case (getTime e (sCreatedAt b), getTime e (sCreatedAt a)) of
        (Some tb, Some ta) \<Rightarrow> Some (tb - ta)
      | _ \<Rightarrow> None)"

definition sortCompare :: "int option \<Rightarrow> int" where
  "sortCompare v = (case v of None \<Rightarrow> 0 | Some n \<Rightarrow> n)"

fun insertSortedRaw :: "runtime \<Rightarrow> stored_todo \<Rightarrow> stored_todo list \<Rightarrow> stored_todo list" where
  "insertSortedRaw e x [] = [x]"
| "insertSortedRaw e x (y # ys) =
     (if sortCompare (compareCreatedAtDescRaw e x y) \<le> 0 then x # y # ys
      else y # insertSortedRaw e x ys)"

definition sortByCreatedAtDescRaw :: "runtime \<Rightarrow> stored_todo list \<Rightarrow> stored_todo list" where
  "sortByCreatedAtDescRaw e todos = foldr (insertSortedRaw e) todos []"

definition todoApi_listRaw ::
  "runtime \<Rightarrow> raw_world \<Rightarrow> (js_error + stored_todo list) \<times> raw_world" where
  "todoApi_listRaw e s =
     (case readStoreRaw e s of
        (v, s1) \<Rightarrow>
          (case ensureSeedDataRaw e v s1 of
             (Inl err, s2) \<Rightarrow> (Inl err, s2)
           | (Inr todos, s2) \<Rightarrow> (Inr (delay (sortByCreatedAtDescRaw e todos)), s2)))"

text \<open>
  \<open>a.createdAt \<ge> b.createdAt\<close>, the two strings read as the comparator reads them, as
  time values; a comparison with NaN is false.
\<close>

definition createdAtNotBefore :: "runtime \<Rightarrow> stored_todo \<Rightarrow> stored_todo \<Rightarrow> bool" where
  "createdAtNotBefore e a b =
     (case (getTime e (sCreatedAt a), getTime e (sCreatedAt b)) of
        (Some ta, Some tb) \<Rightarrow> tb \<le> ta
      | _ \<Rightarrow> False)"

text \<open>
  What every JavaScript runtime guarantees of \<^verbatim>\<open>toISOString\<close> and the \<^verbatim>\<open>Date\<close>
  constructor at the time value \<open>t\<close>: the string of \<open>t\<close> is a date, and its time value is
  \<open>t\<close>.
\<close>

definition isoRoundTrip :: "runtime \<Rightarrow> timestamp \<Rightarrow> bool" where
  "isoRoundTrip e t = (getTime e (toISOString e t) = Some t)"

text \<open>The value that the store holds: what \<open>readStoreRaw\<close> returns.\<close>

definition persistedRaw :: "runtime \<Rightarrow> raw_world \<Rightarrow> js_value" where
  "persistedRaw e s = fst (readStoreRaw e s)"

text \<open>
  A store of the first model as the storage holds it: every time value is stored as the
  string that \<^verbatim>\<open>toISOString\<close> gives for it.
\<close>

definition storedTodo :: "runtime \<Rightarrow> todo \<Rightarrow> stored_todo" where
  "storedTodo e t =
     \<lparr>sId = todoId t, sTitle = title t, sDescription = description t,
      sDueDate = map_option (toISOString e) (dueDate t), sCompleted = completed t,
      sCreatedAt = toISOString e (createdAt t), sUpdatedAt = toISOString e (updatedAt t)\<rparr>"

definition storedItem :: "runtime \<Rightarrow> stored_item \<Rightarrow> storage_text" where
  "storedItem e item =
     (case item of
        NoItem \<Rightarrow> NoText
      | Unparsable \<Rightarrow> NotJson
      | Serialized todos \<Rightarrow> JsonText (JsTodos (map (storedTodo e) todos)))"

definition storedWorld :: "runtime \<Rightarrow> world \<Rightarrow> raw_world" where
  "storedWorld e w =
     \<lparr>rawInMemoryStore = JsTodos (map (storedTodo e) (inMemoryStore w)),
      rawLocalStorage = storedItem e (localStorage w),
      rawNanoidCalls = nanoidCalls w,
      rawClockReads = clockReads w\<rparr>"

subsection \<open>Sample environment and stores\<close>

text \<open>
  A concrete environment for evaluating the operations: identifiers \<^verbatim>\<open>id\<close>, \<^verbatim>\<open>idx\<close>,
  \<^verbatim>\<open>idxx\<close>, ...; a clock that advances by one second per reading; a date parser that
  knows the date \<^verbatim>\<open>2024-01-15\<close> and rejects every other string.
\<close>

definition sampleEnv :: env where
  "sampleEnv =
     \<lparr>isBrowser = True,
      nanoid_at = (\<lambda>k. ''id'' @ replicate k CHR ''x''),
      clock_at = (\<lambda>k. 1700000000000 + 1000 * int k),
      Date_parse = (\<lambda>s. if s = ''2024-01-15'' then Some 1705276800000 else None),
      addLocalDays = (\<lambda>t n. t + day_ms * n)\<rparr>"

definition emptyWorld :: world where
  "emptyWorld =
     \<lparr>inMemoryStore = [], localStorage = NoItem,
      nanoidCalls = 0, clockReads = 0, persistCalls = 0\<rparr>"

definition sampleTodo :: todo where
  "sampleTodo =
     \<lparr>todoId = ''a'', title = ''Pay rent'', description = ''before Friday'',
      dueDate = Some 1705276800000, completed = False,
      createdAt = 1690000000000, updatedAt = 1690000000000\<rparr>"

definition sampleWorld :: world where
  "sampleWorld =
     \<lparr>inMemoryStore = [sampleTodo], localStorage = Serialized [sampleTodo],
      nanoidCalls = 0, clockReads = 0, persistCalls = 0\<rparr>"

definition olderTodo :: todo where
  "olderTodo =
     \<lparr>todoId = ''b'', title = ''Call the bank'', description = [],
      dueDate = None, completed = True,
      createdAt = 1680000000000, updatedAt = 1685000000000\<rparr>"

text \<open>A store written while the clock was ahead: its item was created in 2027.\<close>

definition futureTodo :: todo where
  "futureTodo = sampleTodo\<lparr>createdAt := 1800000000000, updatedAt := 1800000000000\<rparr>"

definition futureWorld :: world where
  "futureWorld =
     \<lparr>inMemoryStore = [futureTodo], localStorage = Serialized [futureTodo],
      nanoidCalls = 0, clockReads = 0, persistCalls = 0\<rparr>"

text \<open>A store that already holds the first identifier of the sample environment.\<close>

definition clashTodo :: todo where
  "clashTodo = sampleTodo\<lparr>todoId := ''id''\<rparr>"

definition clashWorld :: world where
  "clashWorld =
     \<lparr>inMemoryStore = [clashTodo], localStorage = Serialized [clashTodo],
      nanoidCalls = 0, clockReads = 0, persistCalls = 0\<rparr>"

definition sampleOps :: "operation list" where
  "sampleOps =
     [Create \<lparr>cTitle = ''Buy milk'', cDescription = Absent, cDueDate = Absent, cCompleted = Absent\<rparr>,
      Update ''a'' \<lparr>uTitle = Value ''Pay the rent'', uDescription = Absent,
                   uDueDate = Value (Some ''2024-01-15''), uCompleted = Absent\<rparr>,
      ToggleCompletion ''id'',
      Delete ''a'',
      Delete ''id'',
      ToggleCompletion ''nope'']"

definition buyMilk :: CreateTodoInput where
  "buyMilk =
     \<lparr>cTitle = ''Buy milk'', cDescription = Absent, cDueDate = Absent, cCompleted = Absent\<rparr>"


definition emptyPartial :: UpdateTodoInput where
  "emptyPartial =
     \<lparr>uTitle = Absent, uDescription = Absent, uDueDate = Absent, uCompleted = Absent\<rparr>"

text \<open>\<^verbatim>\<open>{ title: undefined, description: undefined, completed: undefined }\<close>\<close>

definition undefinedPartial :: UpdateTodoInput where
  "undefinedPartial =
     \<lparr>uTitle = Undefined, uDescription = Undefined, uDueDate = Absent, uCompleted = Undefined\<rparr>"

text \<open>
  \<^verbatim>\<open>{ title: '\u00A0 Pay the rent \t\u00A0', description: '', dueDate: null, completed: undefined }\<close>:
  the title begins with a no-break space and a space and ends with a space, a tab and a
  no-break space.
\<close>

definition rentPartial :: UpdateTodoInput where
  "rentPartial =
     \<lparr>uTitle = Value (CHR 0xA0 # '' Pay the rent '' @ [CHR 0x09, CHR 0xA0]),
      uDescription = Value [], uDueDate = Value None, uCompleted = Undefined\<rparr>"

text \<open>A write to one object, for evaluating a mutation; the initial heap of the module.\<close>

definition writeCell :: "addr \<Rightarrow> obj \<Rightarrow> heap_world \<Rightarrow> heap_world" where
  "writeCell a v h = h\<lparr>cells := (cells h)(a \<mapsto> v)\<rparr>"

definition initialHeap :: heap_world where
  "initialHeap =
     \<lparr>cells = (\<lambda>a. None)(0 \<mapsto> ArrayObj []), nextAddr = 1, inMemoryStoreRef = 0,
      localStorageItem = NoItem\<rparr>"

text \<open>The sample environment without browser storage.\<close>

definition nodeEnv :: env where
  "nodeEnv = sampleEnv\<lparr>isBrowser := False\<rparr>"

text \<open>The heap after a caller has built the array \<^verbatim>\<open>[olderTodo, sampleTodo]\<close>, at address 3.\<close>

definition callerHeap :: heap_world where
  "callerHeap = snd (JSON_parse [olderTodo, sampleTodo] initialHeap)"

text \<open>
  A runtime for the store as the storage holds it: the sample environment, with a date
  parser and a \<^verbatim>\<open>toISOString\<close> that know the date-time strings of a table.
\<close>

definition isoTable :: "(timestamp \<times> string) list" where
  "isoTable =
     [(1680000000000, ''2023-03-28T10:40:00.000Z''),
      (1690000000000, ''2023-07-22T04:26:40.000Z''),
      (1699395200000, ''2023-11-07T22:13:20.000Z''),
      (1699568000000, ''2023-11-09T22:13:20.000Z''),
      (1699827200000, ''2023-11-12T22:13:20.000Z''),
      (1700000000000, ''2023-11-14T22:13:20.000Z''),
      (1700086400000, ''2023-11-15T22:13:20.000Z''),
      (1700604800000, ''2023-11-21T22:13:20.000Z'')]"

definition rawEnv :: runtime where
  "rawEnv =
     \<lparr>isBrowser = True,
      nanoid_at = (\<lambda>k. ''id'' @ replicate k CHR ''x''),
      clock_at = (\<lambda>k. 1700000000000 + 1000 * int k),
      Date_parse = (\<lambda>s. map_of (map (\<lambda>(t, s). (s, t)) isoTable) s),
      addLocalDays = (\<lambda>t n. t + day_ms * n),
      toISOString = (\<lambda>t. case map_of isoTable t of Some s \<Rightarrow> s | None \<Rightarrow> [])\<rparr>"

definition storedRent :: stored_todo where
  "storedRent =
     \<lparr>sId = ''a'', sTitle = ''Pay rent'', sDescription = ''before Friday'',
      sDueDate = None, sCompleted = False,
      sCreatedAt = ''2023-07-22T04:26:40.000Z'', sUpdatedAt = ''2023-07-22T04:26:40.000Z''\<rparr>"

definition storedBank :: stored_todo where
  "storedBank =
     \<lparr>sId = ''b'', sTitle = ''Call the bank'', sDescription = [],
      sDueDate = None, sCompleted = True,
      sCreatedAt = ''2023-03-28T10:40:00.000Z'', sUpdatedAt = ''2023-03-28T10:40:00.000Z''\<rparr>"

text \<open>A record whose \<^verbatim>\<open>createdAt\<close> is not a date.\<close>

definition storedUndated :: stored_todo where
  "storedUndated = storedBank\<lparr>sCreatedAt := ''not a date''\<rparr>"

text \<open>
  Four stores: without an item; with the older record before the newer one; with the item
  \<^verbatim>\<open>null\<close>; with a record whose \<^verbatim>\<open>createdAt\<close> is not a date.
\<close>

definition emptyStore :: raw_world where
  "emptyStore =
     \<lparr>rawInMemoryStore = JsTodos [], rawLocalStorage = NoText,
      rawNanoidCalls = 0, rawClockReads = 0\<rparr>"

definition unsortedStore :: raw_world where
  "unsortedStore = emptyStore\<lparr>rawLocalStorage := JsonText (JsTodos [storedBank, storedRent])\<rparr>"

definition nullStore :: raw_world where
  "nullStore = emptyStore\<lparr>rawLocalStorage := JsonText JsNull\<rparr>"

definition undatedStore :: raw_world where
  "undatedStore = emptyStore\<lparr>rawLocalStorage := JsonText (JsTodos [storedRent, storedUndated])\<rparr>"

section \<open>Facts about the store shim and the resource API\<close>

lemma readStore_eq: "readStore e w = (persisted e w, w\<lparr>inMemoryStore := persisted e w\<rparr>)"
  by (simp add: readStore_def persisted_def clone_def split: stored_item.splits)

lemma persisted_persist: "persisted e (persist e todos w) = todos"
  by (simp add: persisted_def readStore_def persist_def clone_def Let_def)

lemma persisted_inMemoryStore_update:
  "persisted e (w\<lparr>inMemoryStore := persisted e w\<rparr>) = persisted e w"
  by (simp add: persisted_def readStore_def clone_def split: stored_item.splits)

lemma persisted_counters:
  "persisted e (w\<lparr>clockReads := c\<rparr>) = persisted e w"
  "persisted e (w\<lparr>nanoidCalls := n\<rparr>) = persisted e w"
  "persisted e (w\<lparr>clockReads := c, nanoidCalls := n\<rparr>) = persisted e w"
  by (simp_all add: persisted_def readStore_def clone_def split: stored_item.splits)

lemma loadTodos_nonempty:
  "persisted e w \<noteq> [] \<Longrightarrow> loadTodos e w = (persisted e w, w\<lparr>inMemoryStore := persisted e w\<rparr>)"
  by (simp add: loadTodos_def readStore_eq ensureSeedData_def)

lemma loadTodos_empty:
  "persisted e w = [] \<Longrightarrow>
   loadTodos e w =
     (seedTodos e (clock_at e (clockReads w)) (nanoidCalls w),
      persist e (seedTodos e (clock_at e (clockReads w)) (nanoidCalls w))
        (w\<lparr>inMemoryStore := [], clockReads := Suc (clockReads w), nanoidCalls := nanoidCalls w + 3\<rparr>))"
  by (simp add: loadTodos_def readStore_eq ensureSeedData_def Let_def clone_def)

lemma findIndex_None: "findIndex P xs = None \<longleftrightarrow> (\<forall>x\<in>set xs. \<not> P x)"
  by (induction xs) auto

lemma findIndex_Some:
  "findIndex P xs = Some i \<Longrightarrow> i < length xs \<and> P (xs ! i) \<and> (\<forall>j<i. \<not> P (xs ! j))"
proof (induction xs arbitrary: i)
  case Nil
  then show ?case by simp
next
  case (Cons x xs)
  show ?case
  proof (cases "P x")
    case True
    with Cons.prems show ?thesis by simp
  next
    case False
    with Cons.prems obtain k where k: "findIndex P xs = Some k" "i = Suc k"
      by auto
    from Cons.IH[OF k(1)] False k(2) show ?thesis
      by (auto simp: less_Suc_eq_0_disj)
  qed
qed

lemma findIndex_exists: "(\<exists>i. findIndex P xs = Some i) \<longleftrightarrow> (\<exists>x\<in>set xs. P x)"
  using findIndex_None[of P xs] by (cases "findIndex P xs") auto

lemma existing_index:
  assumes "i \<in> todoId ` set xs"
  obtains index where "findIndex (\<lambda>t. todoId t = i) xs = Some index"
    "index < length xs" "todoId (xs ! index) = i" "\<forall>j<index. todoId (xs ! j) \<noteq> i"
proof -
  from assms have "\<exists>x\<in>set xs. todoId x = i" by auto
  then obtain index where ix: "findIndex (\<lambda>t. todoId t = i) xs = Some index"
    using findIndex_exists[of "\<lambda>t. todoId t = i" xs] by blast
  from findIndex_Some[OF ix] ix that show thesis by blast
qed

lemma update_found:
  assumes "findIndex (\<lambda>t. todoId t = i) (persisted e w) = Some index"
  shows "todoApi_update e i input w =
     (case (if hasKey (uDueDate input) then normalizeDueDate e (uDueDate input) else Inr None) of
        Inl err \<Rightarrow> (Inl err, w\<lparr>inMemoryStore := persisted e w\<rparr>)
      | Inr due \<Rightarrow>
          (Inr (applyUpdate (persisted e w ! index) input due (clock_at e (clockReads w))),
           persist e
             ((persisted e w)[index := applyUpdate (persisted e w ! index) input due (clock_at e (clockReads w))])
             (w\<lparr>inMemoryStore := persisted e w, clockReads := Suc (clockReads w)\<rparr>)))"
proof -
  from assms have "persisted e w \<noteq> []" by auto
  then have "loadTodos e w = (persisted e w, w\<lparr>inMemoryStore := persisted e w\<rparr>)"
    by (rule loadTodos_nonempty)
  with assms show ?thesis
    by (simp add: todoApi_update_def Let_def delay_def clone_def split: sum.splits)
qed

lemma normalizeDueDate_falsy:
  "d \<in> {Absent, Undefined, Value None, Value (Some [])} \<Longrightarrow> normalizeDueDate e d = Inr None"
  by (auto simp: normalizeDueDate_def truthyDueDate_def)

lemma normalizeDueDate_unparsable:
  "s \<noteq> [] \<Longrightarrow> Date_parse e s = None \<Longrightarrow> normalizeDueDate e (Value (Some s)) = Inl RangeError"
  by (simp add: normalizeDueDate_def truthyDueDate_def)

lemma create_eq:
  "todoApi_create e input w =
     (case normalizeDueDate e (cDueDate input) of
        Inl err \<Rightarrow>
          (Inl err, w\<lparr>clockReads := Suc (clockReads w), nanoidCalls := Suc (nanoidCalls w)\<rparr>)
      | Inr due \<Rightarrow>
          (Inr \<lparr>todoId = nanoid_at e (nanoidCalls w),
                 title = trim (cTitle input),
                 description = (case cDescription input of Value d \<Rightarrow> trim d | _ \<Rightarrow> []),
                 dueDate = due,
                 completed = (case cCompleted input of Value c \<Rightarrow> c | _ \<Rightarrow> False),
                 createdAt = clock_at e (clockReads w),
                 updatedAt = clock_at e (clockReads w)\<rparr>,
           persist e
             (sortByCreatedAtDesc
               (\<lparr>todoId = nanoid_at e (nanoidCalls w),
                 title = trim (cTitle input),
                 description = (case cDescription input of Value d \<Rightarrow> trim d | _ \<Rightarrow> []),
                 dueDate = due,
                 completed = (case cCompleted input of Value c \<Rightarrow> c | _ \<Rightarrow> False),
                 createdAt = clock_at e (clockReads w),
                 updatedAt = clock_at e (clockReads w)\<rparr>
                # fst (loadTodos e (w\<lparr>clockReads := Suc (clockReads w), nanoidCalls := Suc (nanoidCalls w)\<rparr>))))
             (snd (loadTodos e (w\<lparr>clockReads := Suc (clockReads w), nanoidCalls := Suc (nanoidCalls w)\<rparr>)))))"
  by (simp add: todoApi_create_def Let_def delay_def clone_def split: sum.splits prod.splits)

lemma persisted_sampleWorld: "persisted sampleEnv sampleWorld = [sampleTodo]"
  by (simp add: persisted_def readStore_def sampleEnv_def sampleWorld_def clone_def)

lemma persisted_emptyWorld: "persisted sampleEnv emptyWorld = []"
  by (simp add: persisted_def readStore_def sampleEnv_def emptyWorld_def clone_def)

lemma seedTodos_nonempty: "seedTodos e now k \<noteq> []"
  by (simp add: seedTodos_def)

lemma length_seedTodos: "length (seedTodos e now k) = 3"
  by (simp add: seedTodos_def)

lemma delete_nonempty:
  assumes "persisted e w \<noteq> []"
  shows "todoApi_delete e i w =
     (case findIndex (\<lambda>t. todoId t = i) (persisted e w) of
        None \<Rightarrow> (Inl NotFound, w\<lparr>inMemoryStore := persisted e w\<rparr>)
      | Some index \<Rightarrow>
          (Inr (), persist e (splice1 index (persisted e w)) (w\<lparr>inMemoryStore := persisted e w\<rparr>)))"
  by (simp add: todoApi_delete_def loadTodos_nonempty[OF assms] delay_def split: option.splits)

lemma delete_empty:
  assumes "persisted e w = []"
  shows "todoApi_delete e i w =
     (let seeded = seedTodos e (clock_at e (clockReads w)) (nanoidCalls w);
          w1 = persist e seeded
                 (w\<lparr>inMemoryStore := [], clockReads := Suc (clockReads w),
                    nanoidCalls := nanoidCalls w + 3\<rparr>)
      in case findIndex (\<lambda>t. todoId t = i) seeded of
           None \<Rightarrow> (Inl NotFound, w1)
         | Some index \<Rightarrow> (Inr (), persist e (splice1 index seeded) w1))"
  by (simp add: todoApi_delete_def loadTodos_empty[OF assms] delay_def Let_def split: option.splits)

lemma ensureSeedData_empty:
  "ensureSeedData e [] w =
     (seedTodos e (clock_at e (clockReads w)) (nanoidCalls w),
      persist e (seedTodos e (clock_at e (clockReads w)) (nanoidCalls w))
        (w\<lparr>clockReads := Suc (clockReads w), nanoidCalls := nanoidCalls w + 3\<rparr>))"
  by (simp add: ensureSeedData_def Let_def clone_def)

lemma ensureSeedData_nonempty: "todos \<noteq> [] \<Longrightarrow> ensureSeedData e todos w = (todos, w)"
  by (simp add: ensureSeedData_def)

lemma persistCalls_persist: "persistCalls (persist e todos w) = Suc (persistCalls w)"
  by (simp add: persist_def Let_def)

lemma loadTodos_twice: "loadTodos e (snd (loadTodos e w)) = (fst (loadTodos e w), snd (loadTodos e w))"
proof (cases "persisted e w = []")
  case True
  let ?seed = "seedTodos e (clock_at e (clockReads w)) (nanoidCalls w)"
  let ?w1 = "persist e ?seed
        (w\<lparr>inMemoryStore := [], clockReads := Suc (clockReads w), nanoidCalls := nanoidCalls w + 3\<rparr>)"
  have l: "loadTodos e w = (?seed, ?w1)"
    by (rule loadTodos_empty[OF True])
  have "persisted e ?w1 = ?seed"
    by (rule persisted_persist)
  moreover have "?seed \<noteq> []"
    by (rule seedTodos_nonempty)
  ultimately have "loadTodos e ?w1 = (?seed, ?w1\<lparr>inMemoryStore := ?seed\<rparr>)"
    using loadTodos_nonempty[of e ?w1] by simp
  moreover have "?w1\<lparr>inMemoryStore := ?seed\<rparr> = ?w1"
    by (simp add: persist_def Let_def clone_def)
  ultimately show ?thesis
    by (simp add: l)
next
  case False
  let ?w1 = "w\<lparr>inMemoryStore := persisted e w\<rparr>"
  have l: "loadTodos e w = (persisted e w, ?w1)"
    by (rule loadTodos_nonempty[OF False])
  have p: "persisted e ?w1 = persisted e w"
    by (rule persisted_inMemoryStore_update)
  with False have "loadTodos e ?w1 = (persisted e w, ?w1\<lparr>inMemoryStore := persisted e w\<rparr>)"
    using loadTodos_nonempty[of e ?w1] by simp
  then show ?thesis
    by (simp add: l)
qed

lemma loadTodos_result_nonempty: "fst (loadTodos e w) \<noteq> []"
  by (cases "persisted e w = []") (simp_all add: loadTodos_empty loadTodos_nonempty seedTodos_nonempty)

lemma mset_insertSorted: "mset (insertSorted x ys) = add_mset x (mset ys)"
  by (induction ys) auto

lemma mset_sortByCreatedAtDesc: "mset (sortByCreatedAtDesc todos) = mset todos"
  unfolding sortByCreatedAtDesc_def
  by (induction todos) (auto simp: mset_insertSorted)


lemma set_sortByCreatedAtDesc: "set (sortByCreatedAtDesc todos) = set todos"
  using mset_sortByCreatedAtDesc[of todos, THEN arg_cong, of set_mset] by simp



lemma list_eq: "todoApi_list e w = (Inr (sortByCreatedAtDesc (fst (loadTodos e w))), snd (loadTodos e w))"
  by (simp add: todoApi_list_def delay_def case_prod_beta)

lemma persisted_loadTodos: "persisted e (snd (loadTodos e w)) = fst (loadTodos e w)"
  by (cases "persisted e w = []")
    (simp_all add: loadTodos_empty loadTodos_nonempty persisted_persist persisted_inMemoryStore_update)

lemma fst_loadTodos:
  "fst (loadTodos e w) =
     (if persisted e w = [] then seedTodos e (clock_at e (clockReads w)) (nanoidCalls w)
      else persisted e w)"
  by (simp add: loadTodos_empty loadTodos_nonempty)


lemma normalizeDueDate_cases:
  "normalizeDueDate e d = Inl err \<Longrightarrow>
     err = RangeError \<and> (\<exists>s. d = Value (Some s) \<and> s \<noteq> [] \<and> Date_parse e s = None)"
  by (auto simp: normalizeDueDate_def truthyDueDate_def
      split: optional.splits option.splits if_splits)

lemma sample_index: "findIndex (\<lambda>t. todoId t = ''a'') (persisted sampleEnv sampleWorld) = Some 0"
  by (simp add: persisted_sampleWorld sampleTodo_def)


lemma trim_rent: "trim (CHR 0xA0 # '' Pay the rent '' @ [CHR 0x09, CHR 0xA0]) = ''Pay the rent''"
  by (simp add: trim_def isWhiteSpace_def)

lemma storeInvariant_weaken:
  assumes "storeInvariant e w" "persisted e w' = persisted e w"
    "nanoidCalls w \<le> nanoidCalls w'" "clockReads w \<le> clockReads w'"
  shows "storeInvariant e w'"
  using assms unfolding storeInvariant_def freshIds_def clockAhead_def
  by (auto dest: le_trans)

lemma day_ms_pos: "0 < day_ms"
  by (simp add: day_ms_def)

lemma storeInvariant_seed:
  assumes "storeInvariant e w" "persisted e w = []"
    "persisted e w' = seedTodos e (clock_at e (clockReads w)) (nanoidCalls w)"
    "nanoidCalls w' = nanoidCalls w + 3" "clockReads w' = Suc (clockReads w)"
  shows "storeInvariant e w'"
proof -
  let ?n = "nanoidCalls w" and ?c = "clockReads w"
  from assms(1) have d: "\<forall>j k. ?n \<le> j \<and> j < k \<longrightarrow> nanoid_at e j \<noteq> nanoid_at e k"
    and mono: "\<forall>j k. ?c \<le> j \<and> j \<le> k \<longrightarrow> clock_at e j \<le> clock_at e k"
    by (simp_all add: storeInvariant_def freshIds_def clockAhead_def)
  have u: "uniqueIds (persisted e w')"
    using d[rule_format, of ?n "?n + 1"] d[rule_format, of ?n "?n + 2"] d[rule_format, of "?n + 1" "?n + 2"]
    by (simp add: assms(3) uniqueIds_def seedTodos_def)
  have t: "timestampsOrdered (persisted e w')"
    using day_ms_pos by (simp add: assms(3) timestampsOrdered_def seedTodos_def)
  have f: "freshIds e w'"
    unfolding freshIds_def assms(3,4)
  proof (intro conjI allI impI ballI)
    fix j k assume "?n + 3 \<le> j \<and> j < k"
    then show "nanoid_at e j \<noteq> nanoid_at e k"
      using d by auto
  next
    fix t k assume t: "t \<in> set (seedTodos e (clock_at e ?c) ?n)" and "?n + 3 \<le> k"
    then show "nanoid_at e k \<noteq> todoId t"
      using d[rule_format, of ?n k] d[rule_format, of "?n + 1" k] d[rule_format, of "?n + 2" k]
      by (auto simp: seedTodos_def)
  qed
  have c: "clockAhead e w'"
    unfolding clockAhead_def assms(3,5)
  proof (intro conjI allI impI ballI)
    fix j k assume "Suc ?c \<le> j \<and> j \<le> k"
    then show "clock_at e j \<le> clock_at e k"
      using mono by auto
  next
    fix t k assume t: "t \<in> set (seedTodos e (clock_at e ?c) ?n)" and "Suc ?c \<le> k"
    then have "clock_at e ?c \<le> clock_at e k"
      using mono by auto
    with t day_ms_pos show "createdAt t \<le> clock_at e k"
      by (auto simp: seedTodos_def)
  qed
  from u t f c show ?thesis
    by (simp add: storeInvariant_def)
qed

lemma nanoidCalls_persist: "nanoidCalls (persist e todos w) = nanoidCalls w"
  by (simp add: persist_def Let_def)

lemma clockReads_persist: "clockReads (persist e todos w) = clockReads w"
  by (simp add: persist_def Let_def)

lemma snd_loadTodos:
  "snd (loadTodos e w) =
     (if persisted e w = [] then
        persist e (seedTodos e (clock_at e (clockReads w)) (nanoidCalls w))
          (w\<lparr>inMemoryStore := [], clockReads := Suc (clockReads w), nanoidCalls := nanoidCalls w + 3\<rparr>)
      else w\<lparr>inMemoryStore := persisted e w\<rparr>)"
  by (simp add: loadTodos_empty loadTodos_nonempty)

lemma storeInvariant_loadTodos:
  assumes "storeInvariant e w"
  shows "storeInvariant e (snd (loadTodos e w))"
proof (cases "persisted e w = []")
  case True
  show ?thesis
    by (rule storeInvariant_seed[OF assms True])
      (simp_all add: snd_loadTodos True persisted_persist nanoidCalls_persist clockReads_persist)
next
  case False
  show ?thesis
    by (rule storeInvariant_weaken[OF assms])
      (simp_all add: snd_loadTodos False persisted_inMemoryStore_update)
qed

lemma counters_loadTodos:
  "nanoidCalls w \<le> nanoidCalls (snd (loadTodos e w))"
  "clockReads w \<le> clockReads (snd (loadTodos e w))"
  by (simp_all add: snd_loadTodos nanoidCalls_persist clockReads_persist)

lemma loadTodos_ids:
  assumes "t \<in> set (fst (loadTodos e w))"
  shows "t \<in> set (persisted e w) \<or> (\<exists>k\<ge>nanoidCalls w. todoId t = nanoid_at e k)"
proof (cases "persisted e w = []")
  case True
  with assms have "t \<in> set (seedTodos e (clock_at e (clockReads w)) (nanoidCalls w))"
    by (simp add: fst_loadTodos)
  then have "todoId t = nanoid_at e (nanoidCalls w) \<or> todoId t = nanoid_at e (nanoidCalls w + 1)
      \<or> todoId t = nanoid_at e (nanoidCalls w + 2)"
    by (auto simp: seedTodos_def)
  then show ?thesis
    by (metis le_add1 le_refl)
next
  case False
  with assms show ?thesis
    by (simp add: fst_loadTodos)
qed

lemma generated_id_fresh:
  assumes "freshIds e w"
  shows "nanoid_at e (nanoidCalls w)
     \<notin> todoId ` set (fst (loadTodos e (w\<lparr>clockReads := c, nanoidCalls := Suc (nanoidCalls w)\<rparr>)))"
proof
  let ?n = "nanoidCalls w"
  let ?w1 = "w\<lparr>clockReads := c, nanoidCalls := Suc ?n\<rparr>"
  assume "nanoid_at e ?n \<in> todoId ` set (fst (loadTodos e ?w1))"
  then obtain t' where t': "t' \<in> set (fst (loadTodos e ?w1))" "todoId t' = nanoid_at e ?n"
    by auto
  from loadTodos_ids[OF t'(1)]
  have "t' \<in> set (persisted e w) \<or> (\<exists>k\<ge>Suc ?n. todoId t' = nanoid_at e k)"
    by (simp add: persisted_counters)
  then show False
  proof
    assume "t' \<in> set (persisted e w)"
    with assms have "nanoid_at e ?n \<noteq> todoId t'"
      unfolding freshIds_def by blast
    with t'(2) show False
      by simp
  next
    assume "\<exists>k\<ge>Suc ?n. todoId t' = nanoid_at e k"
    then obtain k where "Suc ?n \<le> k" "nanoid_at e ?n = nanoid_at e k"
      using t'(2) by auto
    moreover from assms have "\<forall>k. ?n < k \<longrightarrow> nanoid_at e ?n \<noteq> nanoid_at e k"
      unfolding freshIds_def by blast
    ultimately show False
      by (simp add: Suc_le_eq)
  qed
qed

lemma storeInvariant_replace:
  assumes inv: "storeInvariant e w"
    and ix: "index < length (persisted e w)"
    and u: "todoId u = todoId (persisted e w ! index)"
      "createdAt u = createdAt (persisted e w ! index)"
      "updatedAt u = clock_at e (clockReads w)"
    and w': "persisted e w' = (persisted e w)[index := u]"
      "nanoidCalls w' = nanoidCalls w" "clockReads w' = Suc (clockReads w)"
  shows "storeInvariant e w'"
proof -
  let ?xs = "persisted e w"
  from ix have old: "?xs ! index \<in> set ?xs" by simp
  have ids: "map todoId (?xs[index := u]) = map todoId ?xs"
    using ix u(1) by (simp add: map_update list_update_same_conv)
  have mem: "\<And>t. t \<in> set (?xs[index := u]) \<Longrightarrow> t = u \<or> t \<in> set ?xs"
    using set_update_subset_insert[of ?xs index u] by auto
  from inv have un: "uniqueIds ?xs" and ord: "timestampsOrdered ?xs"
    and fr: "freshIds e w" and ca: "clockAhead e w"
    by (simp_all add: storeInvariant_def)
  have 1: "uniqueIds (persisted e w')"
    using un by (simp add: uniqueIds_def w'(1) ids)
  have cu: "\<forall>k\<ge>clockReads w. createdAt u \<le> clock_at e k"
    using ca old u(2) by (simp add: clockAhead_def)
  have 2: "timestampsOrdered (persisted e w')"
    unfolding timestampsOrdered_def w'(1)
  proof
    fix t assume "t \<in> set (?xs[index := u])"
    then have "t = u \<or> t \<in> set ?xs" by (rule mem)
    then show "createdAt t \<le> updatedAt t"
      using ord cu u(3) by (auto simp: timestampsOrdered_def)
  qed
  have 3: "freshIds e w'"
    unfolding freshIds_def w'(1,2)
  proof (intro conjI ballI allI impI)
    fix j k assume "nanoidCalls w \<le> j \<and> j < k"
    with fr show "nanoid_at e j \<noteq> nanoid_at e k"
      by (simp add: freshIds_def)
  next
    fix t k assume t: "t \<in> set (?xs[index := u])" and k: "nanoidCalls w \<le> k"
    from t have "t = u \<or> t \<in> set ?xs" by (rule mem)
    with fr k old u(1) show "nanoid_at e k \<noteq> todoId t"
      by (auto simp: freshIds_def)
  qed
  have 4: "clockAhead e w'"
    unfolding clockAhead_def w'(1,3)
  proof (intro conjI ballI allI impI)
    fix j k assume "Suc (clockReads w) \<le> j \<and> j \<le> k"
    with ca show "clock_at e j \<le> clock_at e k"
      by (simp add: clockAhead_def)
  next
    fix t k assume t: "t \<in> set (?xs[index := u])" and k: "Suc (clockReads w) \<le> k"
    from t have "t = u \<or> t \<in> set ?xs" by (rule mem)
    with ca cu k show "createdAt t \<le> clock_at e k"
      by (auto simp: clockAhead_def)
  qed
  from 1 2 3 4 show ?thesis
    by (simp add: storeInvariant_def)
qed

lemma storeInvariant_remove:
  assumes inv: "storeInvariant e w"
    and w': "persisted e w' = splice1 index (persisted e w)"
      "nanoidCalls w' = nanoidCalls w" "clockReads w' = clockReads w"
  shows "storeInvariant e w'"
proof -
  let ?xs = "persisted e w"
  have sub: "set (splice1 index ?xs) \<subseteq> set ?xs"
    using set_take_subset[of index ?xs] set_drop_subset[of "Suc index" ?xs]
    by (auto simp: splice1_def)
  have "distinct (map todoId ?xs) \<Longrightarrow> distinct (map todoId (splice1 index ?xs))"
  proof -
    assume d: "distinct (map todoId ?xs)"
    have "map todoId ?xs = map todoId (take index ?xs) @ map todoId (drop index ?xs)"
      by (simp flip: map_append)
    with d have "distinct (map todoId (take index ?xs) @ map todoId (drop index ?xs))"
      by simp
    moreover have "set (map todoId (drop (Suc index) ?xs)) \<subseteq> set (map todoId (drop index ?xs))"
      using set_drop_subset_set_drop[of index "Suc index" ?xs] by auto
    moreover have "distinct (map todoId (drop (Suc index) ?xs))"
      using d by (simp flip: drop_map)
    ultimately show ?thesis
      by (auto simp: splice1_def)
  qed
  with inv sub show ?thesis
    unfolding storeInvariant_def uniqueIds_def timestampsOrdered_def freshIds_def clockAhead_def w'
    by (auto simp: subset_iff)
qed

lemma storeInvariant_add:
  assumes inv: "storeInvariant e w"
    and n: "n < nanoidCalls w" "\<forall>k\<ge>nanoidCalls w. nanoid_at e n \<noteq> nanoid_at e k"
      "nanoid_at e n \<notin> todoId ` set (persisted e w)"
    and c: "\<forall>k\<ge>clockReads w. clock_at e c \<le> clock_at e k"
    and t: "todoId t = nanoid_at e n" "createdAt t = clock_at e c" "updatedAt t = clock_at e c"
    and w': "mset (persisted e w') = add_mset t (mset (persisted e w))"
      "nanoidCalls w' = nanoidCalls w" "clockReads w' = clockReads w"
  shows "storeInvariant e w'"
proof -
  let ?xs = "persisted e w"
  from w'(1) have s: "set (persisted e w') = insert t (set ?xs)"
    using mset_eq_setD[of "persisted e w'" "t # ?xs"] by simp
  from w'(1) have "mset (map todoId (persisted e w')) = mset (map todoId (t # ?xs))"
    by (metis mset.simps(2) mset_map)
  then have d: "distinct (map todoId (persisted e w')) = distinct (map todoId (t # ?xs))"
    by (rule mset_eq_imp_distinct_iff)
  from inv have un: "uniqueIds ?xs" and ord: "timestampsOrdered ?xs"
    and fr: "freshIds e w" and ca: "clockAhead e w"
    by (simp_all add: storeInvariant_def)
  have 1: "uniqueIds (persisted e w')"
    using un n(3) t(1) by (simp add: uniqueIds_def d)
  have 2: "timestampsOrdered (persisted e w')"
    using ord t(2,3) by (simp add: timestampsOrdered_def s)
  have 3: "freshIds e w'"
    using fr n(2) t(1) unfolding freshIds_def w'(2) s by auto
  have 4: "clockAhead e w'"
    using ca c t(2) unfolding clockAhead_def w'(3) s by auto
  from 1 2 3 4 show ?thesis
    by (simp add: storeInvariant_def)
qed

lemma toggle_found:
  assumes "findIndex (\<lambda>t. todoId t = i) (fst (loadTodos e w)) = Some index"
  shows "todoApi_toggleCompletion e i w =
     (Inr ((fst (loadTodos e w) ! index)
            \<lparr>completed := \<not> completed (fst (loadTodos e w) ! index),
             updatedAt := clock_at e (clockReads (snd (loadTodos e w)))\<rparr>),
      persist e
        ((fst (loadTodos e w))[index := (fst (loadTodos e w) ! index)
            \<lparr>completed := \<not> completed (fst (loadTodos e w) ! index),
             updatedAt := clock_at e (clockReads (snd (loadTodos e w)))\<rparr>])
        (snd (loadTodos e w)\<lparr>clockReads := Suc (clockReads (snd (loadTodos e w)))\<rparr>))"
  using assms
  by (simp add: todoApi_toggleCompletion_def case_prod_beta Let_def delay_def clone_def)

lemma toggle_missing:
  assumes "findIndex (\<lambda>t. todoId t = i) (fst (loadTodos e w)) = None"
  shows "todoApi_toggleCompletion e i w = (Inl NotFound, snd (loadTodos e w))"
  using assms by (simp add: todoApi_toggleCompletion_def case_prod_beta)

lemma update_general:
  "todoApi_update e i input w =
     (case findIndex (\<lambda>t. todoId t = i) (fst (loadTodos e w)) of
        None \<Rightarrow> (Inl NotFound, snd (loadTodos e w))
      | Some index \<Rightarrow>
          (case (if hasKey (uDueDate input) then normalizeDueDate e (uDueDate input) else Inr None) of
             Inl err \<Rightarrow> (Inl err, snd (loadTodos e w))
           | Inr due \<Rightarrow>
               (Inr (applyUpdate (fst (loadTodos e w) ! index) input due
                      (clock_at e (clockReads (snd (loadTodos e w))))),
                persist e
                  ((fst (loadTodos e w))[index :=
                      applyUpdate (fst (loadTodos e w) ! index) input due
                        (clock_at e (clockReads (snd (loadTodos e w))))])
                  (snd (loadTodos e w)\<lparr>clockReads := Suc (clockReads (snd (loadTodos e w)))\<rparr>))))"
  by (simp add: todoApi_update_def case_prod_beta Let_def delay_def clone_def
      split: option.splits sum.splits)

lemma delete_general:
  "todoApi_delete e i w =
     (case findIndex (\<lambda>t. todoId t = i) (fst (loadTodos e w)) of
        None \<Rightarrow> (Inl NotFound, snd (loadTodos e w))
      | Some index \<Rightarrow>
          (Inr (), persist e (splice1 index (fst (loadTodos e w))) (snd (loadTodos e w))))"
  by (simp add: todoApi_delete_def case_prod_beta Let_def delay_def split: option.splits)

lemma perform_toggle_invariant:
  assumes "storeInvariant e w"
  shows "storeInvariant e (perform e (ToggleCompletion i) w)"
proof -
  let ?todos = "fst (loadTodos e w)" and ?w1 = "snd (loadTodos e w)"
  have inv1: "storeInvariant e ?w1"
    using assms by (rule storeInvariant_loadTodos)
  have p1: "persisted e ?w1 = ?todos"
    by (rule persisted_loadTodos)
  show ?thesis
  proof (cases "findIndex (\<lambda>t. todoId t = i) ?todos")
    case None
    with inv1 show ?thesis
      by (simp add: toggle_missing)
  next
    case (Some index)
    from findIndex_Some[OF Some] have ix: "index < length (persisted e ?w1)"
      by (simp add: p1)
    show ?thesis
      unfolding perform.simps toggle_found[OF Some] snd_conv
      by (rule storeInvariant_replace[OF inv1 ix])
        (simp_all add: p1 persisted_persist nanoidCalls_persist clockReads_persist)
  qed
qed

lemma perform_update_invariant:
  assumes "storeInvariant e w"
  shows "storeInvariant e (perform e (Update i input) w)"
proof -
  let ?todos = "fst (loadTodos e w)" and ?w1 = "snd (loadTodos e w)"
  have inv1: "storeInvariant e ?w1"
    using assms by (rule storeInvariant_loadTodos)
  have p1: "persisted e ?w1 = ?todos"
    by (rule persisted_loadTodos)
  show ?thesis
  proof (cases "findIndex (\<lambda>t. todoId t = i) ?todos")
    case None
    with inv1 show ?thesis
      by (simp add: update_general)
  next
    case (Some index)
    from findIndex_Some[OF Some] have ix: "index < length (persisted e ?w1)"
      by (simp add: p1)
    show ?thesis
    proof (cases "if hasKey (uDueDate input) then normalizeDueDate e (uDueDate input) else Inr None")
      case (Inl err)
      with inv1 Some show ?thesis
        by (simp add: update_general)
    next
      case (Inr due)
      have "storeInvariant e
         (persist e
            (?todos[index := applyUpdate (?todos ! index) input due (clock_at e (clockReads ?w1))])
            (?w1\<lparr>clockReads := Suc (clockReads ?w1)\<rparr>))"
        by (rule storeInvariant_replace[OF inv1 ix])
          (simp_all add: p1 persisted_persist nanoidCalls_persist clockReads_persist applyUpdate_def)
      with Some Inr show ?thesis
        by (simp add: update_general)
    qed
  qed
qed

lemma perform_delete_invariant:
  assumes "storeInvariant e w"
  shows "storeInvariant e (perform e (Delete i) w)"
proof -
  let ?todos = "fst (loadTodos e w)" and ?w1 = "snd (loadTodos e w)"
  have inv1: "storeInvariant e ?w1"
    using assms by (rule storeInvariant_loadTodos)
  have p1: "persisted e ?w1 = ?todos"
    by (rule persisted_loadTodos)
  show ?thesis
  proof (cases "findIndex (\<lambda>t. todoId t = i) ?todos")
    case None
    with inv1 show ?thesis
      by (simp add: delete_general)
  next
    case (Some index)
    have "storeInvariant e (persist e (splice1 index ?todos) ?w1)"
      by (rule storeInvariant_remove[OF inv1])
        (simp_all add: p1 persisted_persist nanoidCalls_persist clockReads_persist)
    with Some show ?thesis
      by (simp add: delete_general)
  qed
qed

lemma perform_create_invariant:
  assumes "storeInvariant e w"
  shows "storeInvariant e (perform e (Create input) w)"
proof -
  let ?n = "nanoidCalls w" and ?c = "clockReads w"
  let ?w1 = "w\<lparr>clockReads := Suc ?c, nanoidCalls := Suc ?n\<rparr>"
  let ?todos = "fst (loadTodos e ?w1)" and ?w2 = "snd (loadTodos e ?w1)"
  have pw1: "persisted e ?w1 = persisted e w"
    by (rule persisted_counters)
  have inv1: "storeInvariant e ?w1"
    by (rule storeInvariant_weaken[OF assms pw1]) simp_all
  show ?thesis
  proof (cases "normalizeDueDate e (cDueDate input)")
    case (Inl err)
    with inv1 show ?thesis
      by (simp add: create_eq)
  next
    case (Inr due)
    define t where "t = \<lparr>todoId = nanoid_at e ?n,
                 title = trim (cTitle input),
                 description = (case cDescription input of Value d \<Rightarrow> trim d | _ \<Rightarrow> []),
                 dueDate = due,
                 completed = (case cCompleted input of Value c \<Rightarrow> c | _ \<Rightarrow> False),
                 createdAt = clock_at e ?c,
                 updatedAt = clock_at e ?c\<rparr>"
    have res: "perform e (Create input) w = persist e (sortByCreatedAtDesc (t # ?todos)) ?w2"
      using Inr by (simp add: create_eq t_def)
    have inv2: "storeInvariant e ?w2"
      using inv1 by (rule storeInvariant_loadTodos)
    have p2: "persisted e ?w2 = ?todos"
      by (rule persisted_loadTodos)
    from assms have fr: "freshIds e w" and ca: "clockAhead e w"
      by (simp_all add: storeInvariant_def)
    have n1: "Suc ?n \<le> nanoidCalls ?w2"
      using counters_loadTodos(1)[of ?w1 e] by simp
    have c1: "Suc ?c \<le> clockReads ?w2"
      using counters_loadTodos(2)[of ?w1 e] by simp
    have a1: "?n < nanoidCalls ?w2"
      using n1 by simp
    have a2: "\<forall>k\<ge>nanoidCalls ?w2. nanoid_at e ?n \<noteq> nanoid_at e k"
      using fr n1 by (auto simp: freshIds_def)
    have a3: "nanoid_at e ?n \<notin> todoId ` set (persisted e ?w2)"
      unfolding p2 using fr by (rule generated_id_fresh)
    have a4: "\<forall>k\<ge>clockReads ?w2. clock_at e ?c \<le> clock_at e k"
      using ca c1 by (auto simp: clockAhead_def)
    show ?thesis
      unfolding res
      by (rule storeInvariant_add[OF inv2 a1 a2 a3 a4, of t])
        (simp_all add: t_def persisted_persist mset_sortByCreatedAtDesc p2
          nanoidCalls_persist clockReads_persist)
  qed
qed

lemma perform_invariant: "storeInvariant e w \<Longrightarrow> storeInvariant e (perform e op w)"
  by (cases op)
    (simp_all only: perform_create_invariant perform_update_invariant
      perform_toggle_invariant perform_delete_invariant)

lemma run_invariant: "storeInvariant e w \<Longrightarrow> storeInvariant e (run e ops w)"
  by (induction ops arbitrary: w) (simp_all add: perform_invariant)

lemma freshIds_sample: "freshIds sampleEnv sampleWorld"
  unfolding freshIds_def
proof (intro conjI allI impI ballI)
  fix j k :: nat assume "nanoidCalls sampleWorld \<le> j \<and> j < k"
  then have "length (nanoid_at sampleEnv j) \<noteq> length (nanoid_at sampleEnv k)"
    by (simp add: sampleEnv_def)
  then show "nanoid_at sampleEnv j \<noteq> nanoid_at sampleEnv k"
    by metis
next
  fix t k assume "t \<in> set (persisted sampleEnv sampleWorld)"
  then have "todoId t = ''a''"
    by (simp add: persisted_sampleWorld sampleTodo_def)
  then show "nanoid_at sampleEnv k \<noteq> todoId t"
    by (simp add: sampleEnv_def)
qed

lemma clockAhead_sample: "clockAhead sampleEnv sampleWorld"
  unfolding clockAhead_def persisted_sampleWorld
  by (simp add: sampleTodo_def sampleEnv_def)

section \<open>Facts about the store shim on the heap\<close>

lemma allocTodos_Cons:
  "allocTodos (t # ts) h =
     (nextAddr h # fst (allocTodos ts (snd (allocate (TodoObj t) h))),
      snd (allocTodos ts (snd (allocate (TodoObj t) h))))"
  by (simp add: allocate_def case_prod_beta)

lemma allocate_simps:
  "nextAddr (snd (allocate v h)) = Suc (nextAddr h)"
  "inMemoryStoreRef (snd (allocate v h)) = inMemoryStoreRef h"
  "localStorageItem (snd (allocate v h)) = localStorageItem h"
  "cells (snd (allocate v h)) = (cells h)(nextAddr h \<mapsto> v)"
  "fst (allocate v h) = nextAddr h"
  by (simp_all add: allocate_def)

lemma allocTodos_nextAddr: "nextAddr (snd (allocTodos ts h)) = nextAddr h + length ts"
  by (induction ts arbitrary: h) (simp_all add: allocTodos_Cons allocate_simps del: allocTodos.simps(2))

lemma allocTodos_fst: "fst (allocTodos ts h) = [nextAddr h ..< nextAddr h + length ts]"
  by (induction ts arbitrary: h)
    (simp_all add: allocTodos_Cons allocate_simps upt_conv_Cons del: upt_Suc allocTodos.simps(2))

lemma allocTodos_refs:
  "inMemoryStoreRef (snd (allocTodos ts h)) = inMemoryStoreRef h"
  "localStorageItem (snd (allocTodos ts h)) = localStorageItem h"
  by (induction ts arbitrary: h) (simp_all add: allocTodos_Cons allocate_simps del: allocTodos.simps(2))

lemma allocTodos_frame: "a < nextAddr h \<Longrightarrow> cells (snd (allocTodos ts h)) a = cells h a"
  by (induction ts arbitrary: h) (simp_all add: allocTodos_Cons allocate_simps del: allocTodos.simps(2))

lemma allocTodos_new:
  "i < length ts \<Longrightarrow> cells (snd (allocTodos ts h)) (nextAddr h + i) = Some (TodoObj (ts ! i))"
proof (induction ts arbitrary: h i)
  case Nil
  then show ?case by simp
next
  case (Cons t ts)
  let ?h1 = "snd (allocate (TodoObj t) h)"
  show ?case
  proof (cases i)
    case 0
    have "cells (snd (allocTodos ts ?h1)) (nextAddr h) = cells ?h1 (nextAddr h)"
      by (rule allocTodos_frame) (simp add: allocate_simps)
    with 0 show ?thesis
      by (simp add: allocTodos_Cons allocate_simps del: allocTodos.simps(2))
  next
    case (Suc j)
    with Cons.prems have "j < length ts" by simp
    then have "cells (snd (allocTodos ts ?h1)) (nextAddr ?h1 + j) = Some (TodoObj (ts ! j))"
      by (rule Cons.IH)
    with Suc show ?thesis
      by (simp add: allocTodos_Cons allocate_simps del: allocTodos.simps(2))
  qed
qed

lemma readTodos_cong:
  "(\<forall>a\<in>set as. c a = c' a) \<Longrightarrow> readTodos c as = readTodos c' as"
  by (induction as) (auto split: option.splits obj.splits)

lemma readTodos_fresh:
  "(\<forall>i<length ts. c (n + i) = Some (TodoObj (ts ! i))) \<Longrightarrow> readTodos c [n ..< n + length ts] = ts"
proof (induction ts arbitrary: n)
  case Nil
  then show ?case by simp
next
  case (Cons t ts)
  from Cons.prems have h: "c n = Some (TodoObj t)"
    by (metis add.right_neutral length_greater_0_conv list.distinct(1) nth_Cons_0)
  from Cons.prems have "\<forall>i<length ts. c (Suc n + i) = Some (TodoObj (ts ! i))"
    by (metis add_Suc_shift length_Cons not_less_eq nth_Cons_Suc)
  then have "readTodos c [Suc n ..< Suc n + length ts] = ts"
    by (rule Cons.IH)
  moreover have "[n ..< n + length (t # ts)] = n # [Suc n ..< Suc n + length ts]"
    by (simp add: upt_conv_Cons del: upt_Suc)
  ultimately show ?case
    using h by simp
qed

lemma JSON_parse_eq:
  "JSON_parse ts h =
     (nextAddr h + length ts,
      (snd (allocTodos ts h))
        \<lparr>cells := (cells (snd (allocTodos ts h)))
                   (nextAddr h + length ts \<mapsto> ArrayObj [nextAddr h ..< nextAddr h + length ts]),
         nextAddr := Suc (nextAddr h + length ts)\<rparr>)"
  by (simp add: JSON_parse_def allocate_def case_prod_beta allocTodos_nextAddr allocTodos_fst)

lemma JSON_parse_facts:
  "fst (JSON_parse ts h) = nextAddr h + length ts"
  "nextAddr (snd (JSON_parse ts h)) = Suc (nextAddr h + length ts)"
  "inMemoryStoreRef (snd (JSON_parse ts h)) = inMemoryStoreRef h"
  "localStorageItem (snd (JSON_parse ts h)) = localStorageItem h"
  "a < nextAddr h \<Longrightarrow> cells (snd (JSON_parse ts h)) a = cells h a"
  "elementsOf (snd (JSON_parse ts h)) (nextAddr h + length ts) = [nextAddr h ..< nextAddr h + length ts]"
  by (simp_all add: JSON_parse_eq allocTodos_refs allocTodos_frame elementsOf_def)

lemma JSON_stringify_JSON_parse:
  "JSON_stringify (snd (JSON_parse ts h)) (nextAddr h + length ts) = ts"
proof -
  let ?h1 = "snd (allocTodos ts h)" and ?as = "[nextAddr h ..< nextAddr h + length ts]"
  have "readTodos ((cells ?h1)(nextAddr h + length ts \<mapsto> ArrayObj ?as)) ?as = readTodos (cells ?h1) ?as"
    by (rule readTodos_cong) simp
  also have "\<dots> = ts"
    by (intro readTodos_fresh) (simp add: allocTodos_new)
  finally show ?thesis
    by (simp add: JSON_stringify_def JSON_parse_facts(6)) (simp add: JSON_parse_eq)
qed

lemma JSON_stringify_cong:
  assumes "\<forall>b\<in>objectsOf h a. cells h' b = cells h b"
  shows "JSON_stringify h' a = JSON_stringify h a"
proof -
  from assms have e: "elementsOf h' a = elementsOf h a"
    by (simp add: objectsOf_def elementsOf_def)
  from assms have "\<forall>b\<in>set (elementsOf h a). cells h' b = cells h b"
    by (simp add: objectsOf_def)
  then show ?thesis
    unfolding JSON_stringify_def e by (rule readTodos_cong)
qed

lemma objectsOf_cong:
  assumes "cells h' a = cells h a"
  shows "objectsOf h' a = objectsOf h a"
  using assms by (simp add: objectsOf_def elementsOf_def)

lemma cloneH_facts:
  "fst (cloneH a h) = nextAddr h + length (JSON_stringify h a)"
  "nextAddr (snd (cloneH a h)) = Suc (nextAddr h + length (JSON_stringify h a))"
  "inMemoryStoreRef (snd (cloneH a h)) = inMemoryStoreRef h"
  "localStorageItem (snd (cloneH a h)) = localStorageItem h"
  "b < nextAddr h \<Longrightarrow> cells (snd (cloneH a h)) b = cells h b"
  "elementsOf (snd (cloneH a h)) (nextAddr h + length (JSON_stringify h a))
     = [nextAddr h ..< nextAddr h + length (JSON_stringify h a)]"
  "JSON_stringify (snd (cloneH a h)) (nextAddr h + length (JSON_stringify h a)) = JSON_stringify h a"
  by (simp_all add: cloneH_def JSON_parse_facts JSON_stringify_JSON_parse)

lemma cloneH_value: "JSON_stringify (snd (cloneH a h)) (fst (cloneH a h)) = JSON_stringify h a"
  by (simp add: cloneH_facts(1,7))

lemma objectsOf_cloneH:
  "objectsOf (snd (cloneH a h)) (fst (cloneH a h))
     = {nextAddr h .. nextAddr h + length (JSON_stringify h a)}"
  by (auto simp: objectsOf_def cloneH_facts)

lemma allocated_frame:
  assumes "allocated h a" and "nextAddr h \<le> nextAddr h'"
    and "\<forall>b\<in>objectsOf h a. cells h' b = cells h b"
  shows "allocated h' a \<and> objectsOf h' a = objectsOf h a
     \<and> JSON_stringify h' a = JSON_stringify h a"
proof -
  have "a \<in> objectsOf h a"
    by (simp add: objectsOf_def)
  with assms(3) have "cells h' a = cells h a"
    by blast
  then have o: "objectsOf h' a = objectsOf h a"
    by (rule objectsOf_cong)
  with assms(1,2) have "allocated h' a"
    by (auto simp: allocated_def)
  with o JSON_stringify_cong[OF assms(3)] show ?thesis
    by simp
qed

lemma allocated_cloneH:
  assumes "allocated h a"
  shows "allocated (snd (cloneH b h)) a \<and> objectsOf (snd (cloneH b h)) a = objectsOf h a
     \<and> JSON_stringify (snd (cloneH b h)) a = JSON_stringify h a"
proof (rule allocated_frame[OF assms])
  show "nextAddr h \<le> nextAddr (snd (cloneH b h))"
    by (simp add: cloneH_facts)
  show "\<forall>c\<in>objectsOf h a. cells (snd (cloneH b h)) c = cells h c"
    using assms by (simp add: allocated_def cloneH_facts)
qed

lemma readBack_storedValue: "readBack e h = storedValue e h"
proof (cases "isBrowser e \<and> (\<exists>raw. localStorageItem h = Serialized raw)")
  case True
  then obtain raw where raw: "isBrowser e" "localStorageItem h = Serialized raw"
    by blast
  let ?p = "fst (JSON_parse raw h)" and ?h1 = "snd (JSON_parse raw h)"
  let ?h2 = "?h1\<lparr>inMemoryStoreRef := ?p\<rparr>"
  have "JSON_stringify ?h2 ?p = JSON_stringify ?h1 ?p"
    by (rule JSON_stringify_cong) simp
  also have "\<dots> = raw"
    by (simp add: JSON_parse_facts(1) JSON_stringify_JSON_parse)
  finally have v: "JSON_stringify ?h2 ?p = raw" .
  have "readBack e h = JSON_stringify (snd (cloneH ?p ?h2)) (fst (cloneH ?p ?h2))"
    using raw by (simp add: readBack_def readStoreH_def case_prod_beta)
  also have "\<dots> = raw"
    by (simp only: cloneH_value v)
  finally show ?thesis
    using raw by (simp add: storedValue_def)
next
  case False
  then have "readStoreH e h = cloneH (inMemoryStoreRef h) h"
    by (auto simp: readStoreH_def split: stored_item.splits)
  moreover from False have "storedValue e h = JSON_stringify h (inMemoryStoreRef h)"
    by (auto simp: storedValue_def split: stored_item.splits)
  ultimately show ?thesis
    by (simp add: readBack_def case_prod_beta cloneH_value)
qed

lemma persistH_facts:
  assumes "allocated h todos"
  shows "wellFormedH (persistH e todos h)"
    and "storedValue e (persistH e todos h) = JSON_stringify h todos"
    and "JSON_stringify (persistH e todos h) (inMemoryStoreRef (persistH e todos h))
           = JSON_stringify h todos"
    and "localStorageItem (persistH e todos h)
           = (if isBrowser e then Serialized (JSON_stringify h todos) else localStorageItem h)"
    and "objectsOf (persistH e todos h) todos
           \<inter> objectsOf (persistH e todos h) (inMemoryStoreRef (persistH e todos h)) = {}"
proof -
  let ?c = "fst (cloneH todos h)" and ?h1 = "snd (cloneH todos h)"
  let ?h2 = "?h1\<lparr>inMemoryStoreRef := ?c\<rparr>"
  let ?g = "persistH e todos h"
  have g: "?g = (if isBrowser e then ?h2\<lparr>localStorageItem := Serialized (JSON_stringify ?h2 todos)\<rparr>
                else ?h2)"
    by (simp add: persistH_def case_prod_beta Let_def)
  have ref: "inMemoryStoreRef ?g = ?c" and cl: "cells ?g = cells ?h1"
    and nx: "nextAddr ?g = nextAddr ?h1"
    by (simp_all add: g)
  have o: "objectsOf ?g ?c = objectsOf ?h1 ?c"
    by (rule objectsOf_cong) (simp add: cl)
  show "wellFormedH ?g"
    unfolding wellFormedH_def allocated_def ref o nx
    by (auto simp: objectsOf_cloneH cloneH_facts(2))
  have "JSON_stringify ?g ?c = JSON_stringify ?h1 ?c"
    by (rule JSON_stringify_cong) (simp add: cl)
  then have v: "JSON_stringify ?g (inMemoryStoreRef ?g) = JSON_stringify h todos"
    by (simp add: ref cloneH_value)
  have "JSON_stringify ?h2 todos = JSON_stringify ?h1 todos"
    by (rule JSON_stringify_cong) simp
  also have "\<dots> = JSON_stringify h todos"
    using allocated_cloneH[OF assms, of todos] by simp
  finally have t: "JSON_stringify ?h2 todos = JSON_stringify h todos" .
  show "storedValue e ?g = JSON_stringify h todos"
  proof (cases "isBrowser e")
    case True
    then show ?thesis
      by (simp add: storedValue_def g t)
  next
    case False
    with v show ?thesis
      by (simp add: storedValue_def)
  qed
  show "JSON_stringify ?g (inMemoryStoreRef ?g) = JSON_stringify h todos"
    by (rule v)
  show "localStorageItem ?g
      = (if isBrowser e then Serialized (JSON_stringify h todos) else localStorageItem h)"
    by (simp add: g t cloneH_facts(4))
  have "objectsOf ?g todos = objectsOf ?h1 todos"
    by (rule objectsOf_cong) (simp add: cl)
  also have "\<dots> = objectsOf h todos"
    using allocated_cloneH[OF assms, of todos] by simp
  finally have ot: "objectsOf ?g todos = objectsOf h todos" .
  have "objectsOf ?g ?c = {nextAddr h .. nextAddr h + length (JSON_stringify h todos)}"
    unfolding o by (rule objectsOf_cloneH)
  with assms show "objectsOf ?g todos \<inter> objectsOf ?g (inMemoryStoreRef ?g) = {}"
    unfolding ref ot by (auto simp: allocated_def)
qed

lemma readStoreH_facts:
  assumes "wellFormedH g"
  shows "wellFormedH (snd (readStoreH e g))"
    and "storedValue e (snd (readStoreH e g)) = storedValue e g"
    and "objectsOf (snd (readStoreH e g)) (fst (readStoreH e g))
           \<inter> objectsOf (snd (readStoreH e g)) (inMemoryStoreRef (snd (readStoreH e g))) = {}"
    and "nextAddr g \<le> nextAddr (snd (readStoreH e g))"
    and "JSON_stringify (snd (readStoreH e g)) (inMemoryStoreRef (snd (readStoreH e g)))
           = storedValue e g"
    and "localStorageItem (snd (readStoreH e g)) = localStorageItem g"
proof -
  let ?r = "fst (readStoreH e g)" and ?g' = "snd (readStoreH e g)"
  have "wellFormedH ?g' \<and> storedValue e ?g' = storedValue e g
      \<and> objectsOf ?g' ?r \<inter> objectsOf ?g' (inMemoryStoreRef ?g') = {}
      \<and> nextAddr g \<le> nextAddr ?g'
      \<and> JSON_stringify ?g' (inMemoryStoreRef ?g') = storedValue e g
      \<and> localStorageItem ?g' = localStorageItem g"
  proof (cases "isBrowser e \<and> (\<exists>raw. localStorageItem g = Serialized raw)")
    case True
    then obtain raw where raw: "isBrowser e" "localStorageItem g = Serialized raw"
      by blast
    let ?p = "nextAddr g + length raw" and ?h1 = "snd (JSON_parse raw g)"
    let ?h2 = "?h1\<lparr>inMemoryStoreRef := ?p\<rparr>"
    have rd: "readStoreH e g = cloneH ?p ?h2"
      using raw by (simp add: readStoreH_def case_prod_beta JSON_parse_facts(1))
    have v: "JSON_stringify ?h2 ?p = raw"
      using JSON_stringify_cong[of ?h1 ?p ?h2] by (simp add: JSON_stringify_JSON_parse)
    have n2: "nextAddr ?h2 = Suc ?p"
      by (simp add: JSON_parse_facts(2))
    have ref: "inMemoryStoreRef ?g' = ?p"
      by (simp add: rd cloneH_facts(3))
    have item: "localStorageItem ?g' = Serialized raw"
      by (simp add: rd cloneH_facts(4) JSON_parse_facts(4) raw(2))
    have nx: "nextAddr ?g' = Suc (Suc ?p + length raw)"
      by (simp add: rd cloneH_facts(2) n2 v)
    have "cells ?g' ?p = cells ?h2 ?p"
      unfolding rd by (rule cloneH_facts(5)) (simp add: n2)
    then have "objectsOf ?g' ?p = objectsOf ?h2 ?p"
      by (rule objectsOf_cong)
    also have "\<dots> = objectsOf ?h1 ?p"
      by (rule objectsOf_cong) simp
    also have "\<dots> = {nextAddr g .. ?p}"
      by (auto simp: objectsOf_def JSON_parse_facts(6))
    finally have op: "objectsOf ?g' ?p = {nextAddr g .. ?p}" .
    have "objectsOf (snd (cloneH ?p ?h2)) (fst (cloneH ?p ?h2))
        = {nextAddr ?h2 .. nextAddr ?h2 + length (JSON_stringify ?h2 ?p)}"
      by (rule objectsOf_cloneH)
    then have or: "objectsOf ?g' ?r = {Suc ?p .. Suc ?p + length raw}"
      by (simp add: rd n2 v)
    have 1: "wellFormedH ?g'"
      unfolding wellFormedH_def allocated_def ref op nx by auto
    have 2: "storedValue e ?g' = storedValue e g"
      using raw by (simp add: storedValue_def item)
    have 3: "objectsOf ?g' ?r \<inter> objectsOf ?g' (inMemoryStoreRef ?g') = {}"
      unfolding ref op or by auto
    have "allocated ?h2 ?p"
      unfolding allocated_def
    proof
      fix b assume "b \<in> objectsOf ?h2 ?p"
      then have "b \<in> objectsOf ?h1 ?p"
        using objectsOf_cong[of ?h2 ?p ?h1] by simp
      then have "b \<le> ?p"
        by (auto simp: objectsOf_def JSON_parse_facts(6))
      then show "b < nextAddr ?h2"
        by (simp add: n2)
    qed
    from allocated_cloneH[OF this, of ?p] have "JSON_stringify ?g' ?p = JSON_stringify ?h2 ?p"
      by (simp add: rd)
    with v have 5: "JSON_stringify ?g' (inMemoryStoreRef ?g') = storedValue e g"
      using raw by (simp add: ref storedValue_def)
    from 1 2 3 5 nx item raw(2) show ?thesis
      by simp
  next
    case False
    let ?s = "inMemoryStoreRef g"
    from False have rd: "readStoreH e g = cloneH ?s g"
      by (auto simp: readStoreH_def split: stored_item.splits)
    from assms have al: "allocated g ?s"
      by (simp add: wellFormedH_def)
    note fr = allocated_cloneH[OF al, of ?s]
    have ref: "inMemoryStoreRef ?g' = ?s"
      by (simp add: rd cloneH_facts(3))
    have item: "localStorageItem ?g' = localStorageItem g"
      by (simp add: rd cloneH_facts(4))
    have or: "objectsOf ?g' ?r = {nextAddr g .. nextAddr g + length (JSON_stringify g ?s)}"
      unfolding rd by (rule objectsOf_cloneH)
    from fr have fr': "allocated ?g' ?s" "objectsOf ?g' ?s = objectsOf g ?s"
      "JSON_stringify ?g' ?s = JSON_stringify g ?s"
      by (simp_all add: rd)
    have 1: "wellFormedH ?g'"
      using fr'(1) by (simp add: wellFormedH_def ref)
    have 2: "storedValue e ?g' = storedValue e g"
      using fr'(3) by (simp add: storedValue_def ref item split: stored_item.splits)
    note fr'(2)
    with al have 3: "objectsOf ?g' ?r \<inter> objectsOf ?g' (inMemoryStoreRef ?g') = {}"
      unfolding ref or by (auto simp: allocated_def)
    have 4: "nextAddr g \<le> nextAddr ?g'"
      by (simp add: rd cloneH_facts(2))
    from False have "storedValue e g = JSON_stringify g ?s"
      by (auto simp: storedValue_def split: stored_item.splits)
    with fr'(3) have 5: "JSON_stringify ?g' (inMemoryStoreRef ?g') = storedValue e g"
      by (simp add: ref)
    from 1 2 3 4 5 item show ?thesis
      by simp
  qed
  then show "wellFormedH ?g'" and "storedValue e ?g' = storedValue e g"
    and "objectsOf ?g' ?r \<inter> objectsOf ?g' (inMemoryStoreRef ?g') = {}"
    and "nextAddr g \<le> nextAddr ?g'"
    and "JSON_stringify ?g' (inMemoryStoreRef ?g') = storedValue e g"
    and "localStorageItem ?g' = localStorageItem g"
    by simp_all
qed

lemma mutatedCopy_storedValue:
  assumes wf: "wellFormedH g"
    and dj: "objectsOf g r \<inter> objectsOf g (inMemoryStoreRef g) = {}"
    and mu: "mutatedCopy g r g'"
  shows "storedValue e g' = storedValue e g" and "wellFormedH g'"
proof -
  let ?s = "inMemoryStoreRef g"
  from mu have ref: "inMemoryStoreRef g' = ?s" and item: "localStorageItem g' = localStorageItem g"
    and nx: "nextAddr g \<le> nextAddr g'"
    and same: "\<forall>a. a < nextAddr g \<and> a \<notin> objectsOf g r \<longrightarrow> cells g' a = cells g a"
    by (simp_all add: mutatedCopy_def)
  from wf have al: "allocated g ?s"
    by (simp add: wellFormedH_def)
  have "\<forall>b\<in>objectsOf g ?s. cells g' b = cells g b"
    using al dj same by (auto simp: allocated_def)
  with al nx have fr: "allocated g' ?s \<and> objectsOf g' ?s = objectsOf g ?s
      \<and> JSON_stringify g' ?s = JSON_stringify g ?s"
    by (intro allocated_frame)
  then show "storedValue e g' = storedValue e g"
    by (simp add: storedValue_def ref item split: stored_item.splits)
  from fr show "wellFormedH g'"
    by (simp add: wellFormedH_def ref)
qed

text \<open>
  The value model is an abstraction of the heap model: on heaps and worlds that hold the
  same store, \<open>readStoreH\<close> and \<open>persistH\<close> do what \<open>readStore\<close> and \<open>persist\<close> do.
\<close>

lemma represents_storedValue: "represents h w \<Longrightarrow> storedValue e h = persisted e w"
  by (simp add: represents_def storedValue_def persisted_def readStore_def clone_def
      split: stored_item.splits)

lemma represents_readStore:
  assumes "represents h w" and "wellFormedH h"
  shows "readBack e h = fst (readStore e w)"
    and "represents (snd (readStoreH e h)) (snd (readStore e w))"
proof -
  from assms(1) have sv: "storedValue e h = persisted e w"
    by (rule represents_storedValue)
  show "readBack e h = fst (readStore e w)"
    by (simp add: readBack_storedValue sv persisted_def)
  from assms(1) have "localStorage w = localStorageItem h"
    by (simp add: represents_def)
  then show "represents (snd (readStoreH e h)) (snd (readStore e w))"
    using readStoreH_facts(5,6)[OF assms(2), of e]
    by (simp add: represents_def readStore_eq sv)
qed

lemma represents_persist:
  assumes "represents h w" and "allocated h todos"
  shows "represents (persistH e todos h) (persist e (JSON_stringify h todos) w)"
  using assms(1) persistH_facts(3,4)[OF assms(2), of e]
  by (simp add: represents_def persist_def Let_def clone_def)

lemma writeCell_mutatedCopy:
  "a \<in> objectsOf g r \<Longrightarrow> mutatedCopy g r (writeCell a v g)"
  by (auto simp: mutatedCopy_def writeCell_def)

lemma callerHeap_facts:
  "nextAddr callerHeap = 4" "elementsOf callerHeap 3 = [1, 2]"
  "JSON_stringify callerHeap 3 = [olderTodo, sampleTodo]"
  by code_simp+

lemma allocated_callerHeap: "allocated callerHeap 3"
  by (simp add: allocated_def objectsOf_def callerHeap_facts)

lemma sample_persist: "elementsOf (persistH nodeEnv 3 callerHeap) 3 = [1, 2]"
  by code_simp

lemma sample_read:
  "fst (readStoreH nodeEnv (persistH nodeEnv 3 callerHeap)) = 9"
  "elementsOf (snd (readStoreH nodeEnv (persistH nodeEnv 3 callerHeap))) 9 = [7, 8]"
  "inMemoryStoreRef (snd (readStoreH nodeEnv (persistH nodeEnv 3 callerHeap))) = 6"
  "elementsOf (snd (readStoreH nodeEnv (persistH nodeEnv 3 callerHeap))) 6 = [4, 5]"
  by code_simp+

section \<open>Facts about the store as the storage holds it\<close>

lemma readStoreRaw_eq:
  "readStoreRaw e s = (persistedRaw e s, s\<lparr>rawInMemoryStore := persistedRaw e s\<rparr>)"
  by (simp add: readStoreRaw_def persistedRaw_def clone_def split: storage_text.splits)

lemma persistedRaw_persistRaw: "persistedRaw e (persistRaw e todos s) = JsTodos todos"
  by (simp add: persistedRaw_def readStoreRaw_def persistRaw_def clone_def Let_def)

lemma persistedRaw_rawInMemoryStore_update:
  "persistedRaw e (s\<lparr>rawInMemoryStore := persistedRaw e s\<rparr>) = persistedRaw e s"
  by (simp add: persistedRaw_def readStoreRaw_def clone_def split: storage_text.splits)

lemma listRaw_null:
  "persistedRaw e s = JsNull \<Longrightarrow>
   todoApi_listRaw e s = (Inl TypeError, s\<lparr>rawInMemoryStore := JsNull\<rparr>)"
  by (simp add: todoApi_listRaw_def readStoreRaw_eq ensureSeedDataRaw_def)

lemma listRaw_nonempty:
  "persistedRaw e s = JsTodos xs \<Longrightarrow> xs \<noteq> [] \<Longrightarrow>
   todoApi_listRaw e s
     = (Inr (sortByCreatedAtDescRaw e xs), s\<lparr>rawInMemoryStore := JsTodos xs\<rparr>)"
  by (simp add: todoApi_listRaw_def readStoreRaw_eq ensureSeedDataRaw_def delay_def)

lemma listRaw_empty:
  "persistedRaw e s = JsTodos [] \<Longrightarrow>
   todoApi_listRaw e s
     = (Inr (sortByCreatedAtDescRaw e (seedTodosRaw e (clock_at e (rawClockReads s)) (rawNanoidCalls s))),
        persistRaw e (seedTodosRaw e (clock_at e (rawClockReads s)) (rawNanoidCalls s))
          (s\<lparr>rawInMemoryStore := JsTodos [], rawClockReads := Suc (rawClockReads s),
              rawNanoidCalls := rawNanoidCalls s + 3\<rparr>))"
  by (simp add: todoApi_listRaw_def readStoreRaw_eq ensureSeedDataRaw_def delay_def clone_def Let_def)

lemma mset_insertSortedRaw: "mset (insertSortedRaw e x ys) = add_mset x (mset ys)"
  by (induction ys) auto

lemma mset_sortByCreatedAtDescRaw: "mset (sortByCreatedAtDescRaw e todos) = mset todos"
  unfolding sortByCreatedAtDescRaw_def
  by (induction todos) (auto simp: mset_insertSortedRaw)

lemma set_insertSortedRaw: "set (insertSortedRaw e x ys) = insert x (set ys)"
  using mset_insertSortedRaw[of e x ys, THEN arg_cong, of set_mset] by simp

lemma set_sortByCreatedAtDescRaw: "set (sortByCreatedAtDescRaw e todos) = set todos"
  using mset_sortByCreatedAtDescRaw[of e todos, THEN arg_cong, of set_mset] by simp

lemma dated_compare:
  assumes "getTime e (sCreatedAt x) = Some tx" and "getTime e (sCreatedAt y) = Some ty"
  shows "sortCompare (compareCreatedAtDescRaw e x y) = ty - tx"
    and "createdAtNotBefore e x y \<longleftrightarrow> ty \<le> tx"
  using assms by (simp_all add: sortCompare_def compareCreatedAtDescRaw_def createdAtNotBefore_def)

lemma createdAtNotBefore_trans:
  "createdAtNotBefore e a b \<Longrightarrow> createdAtNotBefore e b c \<Longrightarrow> createdAtNotBefore e a c"
  by (auto simp: createdAtNotBefore_def split: option.splits)

lemma sorted_insertSortedRaw:
  assumes "getTime e (sCreatedAt x) \<noteq> None"
    and "\<forall>y\<in>set ys. getTime e (sCreatedAt y) \<noteq> None"
    and "sorted_wrt (createdAtNotBefore e) ys"
  shows "sorted_wrt (createdAtNotBefore e) (insertSortedRaw e x ys)"
  using assms(2,3)
proof (induction ys)
  case Nil
  then show ?case by simp
next
  case (Cons y ys)
  from assms(1) obtain tx where tx: "getTime e (sCreatedAt x) = Some tx"
    by auto
  from Cons.prems(1) obtain ty where ty: "getTime e (sCreatedAt y) = Some ty"
    by auto
  show ?case
  proof (cases "sortCompare (compareCreatedAtDescRaw e x y) \<le> 0")
    case True
    then have xy: "createdAtNotBefore e x y"
      by (simp add: dated_compare[OF tx ty])
    have "\<forall>z\<in>set ys. createdAtNotBefore e x z"
    proof
      fix z assume "z \<in> set ys"
      with Cons.prems(2) have "createdAtNotBefore e y z"
        by simp
      with xy show "createdAtNotBefore e x z"
        by (rule createdAtNotBefore_trans)
    qed
    with True xy Cons.prems(2) show ?thesis
      by simp
  next
    case False
    then have yx: "createdAtNotBefore e y x"
      by (simp add: dated_compare[OF tx ty] dated_compare[OF ty tx])
    from Cons.prems have "sorted_wrt (createdAtNotBefore e) (insertSortedRaw e x ys)"
      by (intro Cons.IH) simp_all
    with False yx Cons.prems(2) show ?thesis
      by (auto simp: set_insertSortedRaw)
  qed
qed

lemma sorted_sortByCreatedAtDescRaw:
  "\<forall>x\<in>set todos. getTime e (sCreatedAt x) \<noteq> None \<Longrightarrow>
   sorted_wrt (createdAtNotBefore e) (sortByCreatedAtDescRaw e todos)"
proof (induction todos)
  case Nil
  then show ?case by (simp add: sortByCreatedAtDescRaw_def)
next
  case (Cons x xs)
  then have "sorted_wrt (createdAtNotBefore e) (sortByCreatedAtDescRaw e xs)"
    by simp
  moreover from Cons.prems have "getTime e (sCreatedAt x) \<noteq> None"
    by simp
  moreover from Cons.prems
  have "\<forall>y\<in>set (sortByCreatedAtDescRaw e xs). getTime e (sCreatedAt y) \<noteq> None"
    by (simp add: set_sortByCreatedAtDescRaw)
  ultimately have "sorted_wrt (createdAtNotBefore e) (insertSortedRaw e x (sortByCreatedAtDescRaw e xs))"
    by (intro sorted_insertSortedRaw)
  then show ?case
    by (simp add: sortByCreatedAtDescRaw_def)
qed

lemma seedTodosRaw_dated:
  assumes "isoRoundTrip e now" and "isoRoundTrip e (now - day_ms * 2)"
    and "isoRoundTrip e (now - day_ms * 7)"
  shows "\<forall>x\<in>set (seedTodosRaw e now i). getTime e (sCreatedAt x) \<noteq> None"
  using assms by (simp add: seedTodosRaw_def isoRoundTrip_def)

lemma length_seedTodosRaw: "length (seedTodosRaw e now i) = 3"
  by (simp add: seedTodosRaw_def)

lemma getTime_rawEnv:
  "getTime rawEnv ''2023-03-28T10:40:00.000Z'' = Some 1680000000000"
  "getTime rawEnv ''2023-07-22T04:26:40.000Z'' = Some 1690000000000"
  "getTime rawEnv ''2023-11-07T22:13:20.000Z'' = Some 1699395200000"
  "getTime rawEnv ''2023-11-12T22:13:20.000Z'' = Some 1699827200000"
  "getTime rawEnv ''2023-11-14T22:13:20.000Z'' = Some 1700000000000"
  "getTime rawEnv ''not a date'' = None"
  by (simp_all add: getTime_def rawEnv_def isoTable_def)

lemma toISOString_rawEnv:
  "toISOString rawEnv 1699395200000 = ''2023-11-07T22:13:20.000Z''"
  "toISOString rawEnv 1699827200000 = ''2023-11-12T22:13:20.000Z''"
  "toISOString rawEnv 1700000000000 = ''2023-11-14T22:13:20.000Z''"
  by (simp_all add: rawEnv_def isoTable_def)

lemma persistedRaw_samples:
  "persistedRaw rawEnv emptyStore = JsTodos []"
  "persistedRaw rawEnv unsortedStore = JsTodos [storedBank, storedRent]"
  "persistedRaw rawEnv nullStore = JsNull"
  "persistedRaw rawEnv undatedStore = JsTodos [storedRent, storedUndated]"
  by (simp_all add: persistedRaw_def readStoreRaw_def rawEnv_def clone_def
      emptyStore_def unsortedStore_def nullStore_def undatedStore_def)

text \<open>
  On a store of the first model, \<open>todoApi_listRaw\<close> returns what \<open>todoApi_list\<close> returns,
  given that the strings of the time values in the collection are dates with these time
  values.
\<close>

lemma truncate_simps:
  "isBrowser (env.truncate e) = isBrowser e"
  "nanoid_at (env.truncate e) = nanoid_at e"
  "clock_at (env.truncate e) = clock_at e"
  "Date_parse (env.truncate e) = Date_parse e"
  "addLocalDays (env.truncate e) = addLocalDays e"
  by (simp_all add: env.truncate_def)

lemma persistedRaw_storedWorld:
  "persistedRaw e (storedWorld e w) = JsTodos (map (storedTodo e) (persisted (env.truncate e) w))"
  by (simp add: persistedRaw_def readStoreRaw_def persisted_def readStore_def storedWorld_def
      storedItem_def clone_def truncate_simps split: stored_item.splits)

lemma seedTodosRaw_storedTodo:
  "seedTodosRaw e now i = map (storedTodo e) (seedTodos (env.truncate e) now i)"
  by (simp add: seedTodosRaw_def seedTodos_def storedTodo_def truncate_simps)

lemma insertSortedRaw_storedTodo:
  assumes "isoRoundTrip e (createdAt x)" and "\<forall>y\<in>set ys. isoRoundTrip e (createdAt y)"
  shows "insertSortedRaw e (storedTodo e x) (map (storedTodo e) ys)
     = map (storedTodo e) (insertSorted x ys)"
  using assms(2)
proof (induction ys)
  case Nil
  then show ?case by simp
next
  case (Cons y ys)
  from assms(1) Cons.prems
  have "sortCompare (compareCreatedAtDescRaw e (storedTodo e x) (storedTodo e y))
      = compareCreatedAtDesc x y"
    by (simp add: sortCompare_def compareCreatedAtDescRaw_def compareCreatedAtDesc_def
        storedTodo_def isoRoundTrip_def)
  with Cons show ?case
    by simp
qed

lemma sortByCreatedAtDescRaw_storedTodo:
  "\<forall>t\<in>set todos. isoRoundTrip e (createdAt t) \<Longrightarrow>
   sortByCreatedAtDescRaw e (map (storedTodo e) todos)
     = map (storedTodo e) (sortByCreatedAtDesc todos)"
proof (induction todos)
  case Nil
  then show ?case
    by (simp add: sortByCreatedAtDescRaw_def sortByCreatedAtDesc_def)
next
  case (Cons x xs)
  then have "sortByCreatedAtDescRaw e (map (storedTodo e) xs)
      = map (storedTodo e) (sortByCreatedAtDesc xs)"
    by simp
  moreover from Cons.prems
  have "insertSortedRaw e (storedTodo e x) (map (storedTodo e) (sortByCreatedAtDesc xs))
      = map (storedTodo e) (insertSorted x (sortByCreatedAtDesc xs))"
    by (intro insertSortedRaw_storedTodo) (simp_all add: set_sortByCreatedAtDesc)
  ultimately show ?case
    by (simp add: sortByCreatedAtDescRaw_def sortByCreatedAtDesc_def)
qed

lemma listRaw_storedWorld:
  assumes "\<forall>t\<in>set (fst (loadTodos (env.truncate e) w)). isoRoundTrip e (createdAt t)"
  shows "fst (todoApi_listRaw e (storedWorld e w))
     = Inr (map (storedTodo e) (sortByCreatedAtDesc (fst (loadTodos (env.truncate e) w))))"
    and "fst (todoApi_list (env.truncate e) w)
     = Inr (sortByCreatedAtDesc (fst (loadTodos (env.truncate e) w)))"
proof -
  let ?e = "env.truncate e"
  show "fst (todoApi_list ?e w) = Inr (sortByCreatedAtDesc (fst (loadTodos ?e w)))"
    by (simp add: list_eq)
  show "fst (todoApi_listRaw e (storedWorld e w))
     = Inr (map (storedTodo e) (sortByCreatedAtDesc (fst (loadTodos ?e w))))"
  proof (cases "persisted ?e w = []")
    case True
    then have "persistedRaw e (storedWorld e w) = JsTodos []"
      by (simp add: persistedRaw_storedWorld)
    then have "fst (todoApi_listRaw e (storedWorld e w))
        = Inr (sortByCreatedAtDescRaw e
            (map (storedTodo e) (seedTodos ?e (clock_at ?e (clockReads w)) (nanoidCalls w))))"
      by (simp add: listRaw_empty seedTodosRaw_storedTodo storedWorld_def truncate_simps)
    with assms True show ?thesis
      by (simp add: sortByCreatedAtDescRaw_storedTodo fst_loadTodos)
  next
    case False
    have "persistedRaw e (storedWorld e w) = JsTodos (map (storedTodo e) (persisted ?e w))"
      by (rule persistedRaw_storedWorld)
    with False have "fst (todoApi_listRaw e (storedWorld e w))
        = Inr (sortByCreatedAtDescRaw e (map (storedTodo e) (persisted ?e w)))"
      by (simp add: listRaw_nonempty)
    with assms False show ?thesis
      by (simp add: sortByCreatedAtDescRaw_storedTodo fst_loadTodos)
  qed
qed

section \<open>The properties of the specification\<close>

subsection \<open>C1: the invariants of the data model over sequences of operations\<close>

text \<open>
  C1 as stated fails: a collection that satisfies the two invariants may hold an item whose
  \<open>createdAt\<close> is later than the clock reads now (it was written while the clock was
  ahead). \<^verbatim>\<open>toggleCompletion\<close> sets \<open>updatedAt\<close> to the clock reading, which is then
  earlier than \<open>createdAt\<close>. Likewise \<^verbatim>\<open>create\<close> does not compare the value of
  \<^verbatim>\<open>nanoid()\<close> with the ids in the collection: unique ids rest on \<^verbatim>\<open>nanoid\<close> alone.
\<close>

theorem invariants_counterexample:
  "uniqueIds (persisted sampleEnv futureWorld)
   \<and> timestampsOrdered (persisted sampleEnv futureWorld)
   \<and> persisted sampleEnv (run sampleEnv [ToggleCompletion ''a''] futureWorld)
       = [futureTodo\<lparr>completed := True, updatedAt := 1700000000000\<rparr>]
   \<and> updatedAt (futureTodo\<lparr>completed := True, updatedAt := 1700000000000\<rparr>)
       < createdAt (futureTodo\<lparr>completed := True, updatedAt := 1700000000000\<rparr>)
   \<and> \<not> timestampsOrdered (persisted sampleEnv (run sampleEnv [ToggleCompletion ''a''] futureWorld))
   \<and> uniqueIds (persisted sampleEnv clashWorld)
   \<and> timestampsOrdered (persisted sampleEnv clashWorld)
   \<and> map todoId (persisted sampleEnv (run sampleEnv [Create buyMilk] clashWorld)) = [''id'', ''id'']
   \<and> \<not> uniqueIds (persisted sampleEnv (run sampleEnv [Create buyMilk] clashWorld))"
proof -
  have p: "persisted sampleEnv futureWorld = [futureTodo]"
    by (simp add: persisted_def readStore_def sampleEnv_def futureWorld_def clone_def)
  have l: "loadTodos sampleEnv futureWorld = ([futureTodo], futureWorld)"
    by (simp add: loadTodos_nonempty p) (simp add: futureWorld_def)
  have f: "findIndex (\<lambda>t. todoId t = ''a'') (fst (loadTodos sampleEnv futureWorld)) = Some 0"
    by (simp add: l futureTodo_def sampleTodo_def)
  have r: "persisted sampleEnv (run sampleEnv [ToggleCompletion ''a''] futureWorld)
       = [futureTodo\<lparr>completed := True, updatedAt := 1700000000000\<rparr>]"
    by (simp add: toggle_found[OF f] persisted_persist l)
      (simp add: futureTodo_def sampleTodo_def sampleEnv_def futureWorld_def)
  have pc: "persisted sampleEnv clashWorld = [clashTodo]"
    by (simp add: persisted_def readStore_def sampleEnv_def clashWorld_def clone_def)
  have c: "map todoId (persisted sampleEnv (run sampleEnv [Create buyMilk] clashWorld)) = [''id'', ''id'']"
    by code_simp
  have 1: "uniqueIds (persisted sampleEnv futureWorld)
      \<and> timestampsOrdered (persisted sampleEnv futureWorld)
      \<and> updatedAt (futureTodo\<lparr>completed := True, updatedAt := 1700000000000\<rparr>)
          < createdAt (futureTodo\<lparr>completed := True, updatedAt := 1700000000000\<rparr>)
      \<and> \<not> timestampsOrdered (persisted sampleEnv (run sampleEnv [ToggleCompletion ''a''] futureWorld))"
    unfolding r p
    by (simp add: uniqueIds_def timestampsOrdered_def futureTodo_def sampleTodo_def)
  have 2: "uniqueIds (persisted sampleEnv clashWorld)
      \<and> timestampsOrdered (persisted sampleEnv clashWorld)"
    unfolding pc
    by (simp add: uniqueIds_def timestampsOrdered_def clashTodo_def sampleTodo_def)
  have 3: "\<not> uniqueIds (persisted sampleEnv (run sampleEnv [Create buyMilk] clashWorld))"
    unfolding uniqueIds_def c by simp
  from 1 2 3 r c show ?thesis
    by blast
qed

text \<open>
  C1, amended. For every sequence of create, update, toggleCompletion and delete
  operations (failed calls included), starting from a persisted collection whose ids are
  unique and where every item satisfies \<open>updatedAt \<ge> createdAt\<close>: if the ids that
  \<^verbatim>\<open>nanoid()\<close> generates from now on differ from each other and from the ids in the
  collection, and the clock never runs backwards and never reads earlier than a
  \<open>createdAt\<close> in the collection, then the final persisted collection has unique ids and
  satisfies \<open>updatedAt \<ge> createdAt\<close> for every item.
\<close>

theorem invariants_preserved:
  assumes "uniqueIds (persisted e w)" and "timestampsOrdered (persisted e w)"
    and "freshIds e w" and "clockAhead e w"
  shows "uniqueIds (persisted e (run e ops w)) \<and> timestampsOrdered (persisted e (run e ops w))"
proof -
  from assms have "storeInvariant e w"
    by (simp add: storeInvariant_def)
  then have "storeInvariant e (run e ops w)"
    by (rule run_invariant)
  then show ?thesis
    by (simp add: storeInvariant_def)
qed

text \<open>
  Six calls on the one-item store in the sample environment: a create, an update, a toggle,
  two deletes that empty the store, and a toggle of an unknown id, which seeds it again.
\<close>

theorem invariants_preserved_witness:
  "uniqueIds (persisted sampleEnv sampleWorld)
   \<and> timestampsOrdered (persisted sampleEnv sampleWorld)
   \<and> freshIds sampleEnv sampleWorld
   \<and> clockAhead sampleEnv sampleWorld
   \<and> uniqueIds (persisted sampleEnv (run sampleEnv sampleOps sampleWorld))
   \<and> timestampsOrdered (persisted sampleEnv (run sampleEnv sampleOps sampleWorld))
   \<and> map todoId (persisted sampleEnv (run sampleEnv sampleOps sampleWorld))
       = [''idx'', ''idxx'', ''idxxx'']"
proof -
  have h1: "uniqueIds (persisted sampleEnv sampleWorld)"
    by (simp add: uniqueIds_def persisted_sampleWorld)
  have h2: "timestampsOrdered (persisted sampleEnv sampleWorld)"
    by (simp add: timestampsOrdered_def persisted_sampleWorld sampleTodo_def)
  have v: "map todoId (persisted sampleEnv (run sampleEnv sampleOps sampleWorld))
       = [''idx'', ''idxx'', ''idxxx'']"
    by code_simp
  from invariants_preserved[OF h1 h2 freshIds_sample clockAhead_sample, of sampleOps]
    h1 h2 freshIds_sample clockAhead_sample v
  show ?thesis by blast
qed

subsection \<open>C2: which fields update applies\<close>

text \<open>
  C2 as stated fails in two ways. A partial whose keys \<^verbatim>\<open>title\<close>, \<^verbatim>\<open>description\<close> and
  \<^verbatim>\<open>completed\<close> are present with the value \<^verbatim>\<open>undefined\<close> gives the result of the empty
  partial: the guard \<^verbatim>\<open>input.k !== undefined\<close> skips them. And with a \<^verbatim>\<open>dueDate\<close> that
  does not parse, \<^verbatim>\<open>update\<close> throws: no item is returned, nothing is persisted and
  \<open>updatedAt\<close> is not refreshed.
\<close>

theorem update_presence_counterexample:
  "''a'' \<in> todoId ` set (persisted sampleEnv sampleWorld)
   \<and> hasKey (uTitle undefinedPartial) \<and> hasKey (uDescription undefinedPartial)
   \<and> hasKey (uCompleted undefinedPartial)
   \<and> \<not> hasKey (uTitle emptyPartial) \<and> \<not> hasKey (uDescription emptyPartial)
   \<and> \<not> hasKey (uCompleted emptyPartial)
   \<and> todoApi_update sampleEnv ''a'' undefinedPartial sampleWorld
        = todoApi_update sampleEnv ''a'' emptyPartial sampleWorld
   \<and> fst (todoApi_update sampleEnv ''a''
             (emptyPartial\<lparr>uDueDate := Value (Some ''not a date'')\<rparr>) sampleWorld) = Inl RangeError
   \<and> persisted sampleEnv
        (snd (todoApi_update sampleEnv ''a''
               (emptyPartial\<lparr>uDueDate := Value (Some ''not a date'')\<rparr>) sampleWorld))
        = persisted sampleEnv sampleWorld"
proof -
  have n: "normalizeDueDate sampleEnv (Value (Some ''not a date'')) = Inl RangeError"
    by (rule normalizeDueDate_unparsable) (simp_all add: sampleEnv_def)
  have 1: "''a'' \<in> todoId ` set (persisted sampleEnv sampleWorld)"
    by (simp add: persisted_sampleWorld sampleTodo_def)
  have 2: "hasKey (uTitle undefinedPartial) \<and> hasKey (uDescription undefinedPartial)
      \<and> hasKey (uCompleted undefinedPartial)
      \<and> \<not> hasKey (uTitle emptyPartial) \<and> \<not> hasKey (uDescription emptyPartial)
      \<and> \<not> hasKey (uCompleted emptyPartial)"
    by (simp add: hasKey_def undefinedPartial_def emptyPartial_def)
  have 3: "todoApi_update sampleEnv ''a'' undefinedPartial sampleWorld
        = todoApi_update sampleEnv ''a'' emptyPartial sampleWorld"
    by (simp add: update_found[OF sample_index] undefinedPartial_def emptyPartial_def
        hasKey_def applyUpdate_def)
  have 4: "fst (todoApi_update sampleEnv ''a''
             (emptyPartial\<lparr>uDueDate := Value (Some ''not a date'')\<rparr>) sampleWorld) = Inl RangeError"
    by (simp add: update_found[OF sample_index] hasKey_def n)
  have 5: "persisted sampleEnv
        (snd (todoApi_update sampleEnv ''a''
               (emptyPartial\<lparr>uDueDate := Value (Some ''not a date'')\<rparr>) sampleWorld))
        = persisted sampleEnv sampleWorld"
    by (simp add: update_found[OF sample_index] hasKey_def n persisted_inMemoryStore_update)
  from 1 2 3 4 5 show ?thesis by blast
qed

text \<open>
  C2, amended. For every existing id and every partial, \<^verbatim>\<open>update\<close> either throws the
  RangeError of C9 (only when \<^verbatim>\<open>dueDate\<close> is a non-empty string that does not parse; then the
  persisted collection is unchanged) or returns the item at the first position with that
  id, changed as follows and persisted at that position: \<open>title\<close>, \<open>description\<close> and
  \<open>completed\<close> are taken from the partial (title and description trimmed, the empty
  string included) when the key is present with a value other than \<^verbatim>\<open>undefined\<close> and are
  left untouched when the key is absent or \<^verbatim>\<open>undefined\<close>; \<open>dueDate\<close> is left untouched when
  its key is absent, cleared when the key is present with \<^verbatim>\<open>undefined\<close>, \<^verbatim>\<open>null\<close> or the
  empty string, and set to the parsed time value otherwise; \<open>id\<close> and \<open>createdAt\<close>
  are kept and \<open>updatedAt\<close> is the clock reading. The call returns whenever the due date,
  if supplied, parses.
\<close>

theorem update_applies_present_values:
  assumes "i \<in> todoId ` set (persisted e w)"
    and "todoApi_update e i input w = (r, w')"
  shows "\<exists>index. findIndex (\<lambda>t. todoId t = i) (persisted e w) = Some index
     \<and> (case r of
          Inl err \<Rightarrow>
              err = RangeError
            \<and> (\<exists>s. uDueDate input = Value (Some s) \<and> s \<noteq> [] \<and> Date_parse e s = None)
            \<and> persisted e w' = persisted e w
        | Inr u \<Rightarrow>
              (\<forall>s. uTitle input = Value s \<longrightarrow> title u = trim s)
            \<and> (uTitle input \<in> {Absent, Undefined} \<longrightarrow> title u = title (persisted e w ! index))
            \<and> (\<forall>s. uDescription input = Value s \<longrightarrow> description u = trim s)
            \<and> (uDescription input \<in> {Absent, Undefined} \<longrightarrow>
                  description u = description (persisted e w ! index))
            \<and> (\<forall>c. uCompleted input = Value c \<longrightarrow> completed u = c)
            \<and> (uCompleted input \<in> {Absent, Undefined} \<longrightarrow>
                  completed u = completed (persisted e w ! index))
            \<and> (uDueDate input = Absent \<longrightarrow> dueDate u = dueDate (persisted e w ! index))
            \<and> (uDueDate input \<in> {Undefined, Value None, Value (Some [])} \<longrightarrow> dueDate u = None)
            \<and> (\<forall>s. uDueDate input = Value (Some s) \<and> s \<noteq> [] \<longrightarrow>
                  dueDate u = Date_parse e s \<and> dueDate u \<noteq> None)
            \<and> todoId u = todoId (persisted e w ! index)
            \<and> createdAt u = createdAt (persisted e w ! index)
            \<and> updatedAt u = clock_at e (clockReads w)
            \<and> persisted e w' = (persisted e w)[index := u])
     \<and> ((\<forall>s. uDueDate input = Value (Some s) \<and> s \<noteq> [] \<longrightarrow> Date_parse e s \<noteq> None) \<longrightarrow>
          (\<exists>u. r = Inr u))"
proof -
  from assms(1) obtain index where ix:
    "findIndex (\<lambda>t. todoId t = i) (persisted e w) = Some index"
    by (rule existing_index)
  let ?old = "persisted e w ! index"
  show ?thesis
  proof (cases "uDueDate input = Absent")
    case True
    define u where "u = applyUpdate ?old input None (clock_at e (clockReads w))"
    from assms(2) True have r: "r = Inr u" and p: "persisted e w' = (persisted e w)[index := u]"
      by (auto simp: update_found[OF ix] hasKey_def u_def persisted_persist)
    have f: "title u = (case uTitle input of Value s \<Rightarrow> trim s | _ \<Rightarrow> title ?old)"
      "description u = (case uDescription input of Value s \<Rightarrow> trim s | _ \<Rightarrow> description ?old)"
      "completed u = (case uCompleted input of Value c \<Rightarrow> c | _ \<Rightarrow> completed ?old)"
      "dueDate u = dueDate ?old" "todoId u = todoId ?old" "createdAt u = createdAt ?old"
      "updatedAt u = clock_at e (clockReads w)"
      using True by (simp_all add: u_def applyUpdate_def hasKey_def)
    from True f p ix show ?thesis
      unfolding r sum.case by (intro exI[of _ index]) auto
  next
    case False
    then have k: "hasKey (uDueDate input)"
      by (simp add: hasKey_def)
    show ?thesis
    proof (cases "normalizeDueDate e (uDueDate input)")
      case (Inl err)
      with assms(2) k have r: "r = Inl err" and p: "persisted e w' = persisted e w"
        by (auto simp: update_found[OF ix] persisted_inMemoryStore_update)
      from normalizeDueDate_cases[OF Inl] r p ix show ?thesis
        by auto
    next
      case (Inr due)
      define u where "u = applyUpdate ?old input due (clock_at e (clockReads w))"
      from assms(2) k Inr have r: "r = Inr u" and p: "persisted e w' = (persisted e w)[index := u]"
        by (auto simp: update_found[OF ix] u_def persisted_persist)
      have f: "title u = (case uTitle input of Value s \<Rightarrow> trim s | _ \<Rightarrow> title ?old)"
        "description u = (case uDescription input of Value s \<Rightarrow> trim s | _ \<Rightarrow> description ?old)"
        "completed u = (case uCompleted input of Value c \<Rightarrow> c | _ \<Rightarrow> completed ?old)"
        "dueDate u = due" "todoId u = todoId ?old" "createdAt u = createdAt ?old"
        "updatedAt u = clock_at e (clockReads w)"
        using k by (simp_all add: u_def applyUpdate_def)
      have d1: "uDueDate input \<in> {Undefined, Value None, Value (Some [])} \<longrightarrow> dueDate u = None"
        using Inr normalizeDueDate_falsy[of "uDueDate input" e] by (auto simp: f)
      have d2: "\<forall>s. uDueDate input = Value (Some s) \<and> s \<noteq> [] \<longrightarrow>
                  dueDate u = Date_parse e s \<and> dueDate u \<noteq> None"
      proof (intro allI impI)
        fix s assume a: "uDueDate input = Value (Some s) \<and> s \<noteq> []"
        with Inr show "dueDate u = Date_parse e s \<and> dueDate u \<noteq> None"
          by (cases "Date_parse e s") (auto simp: f normalizeDueDate_def truthyDueDate_def)
      qed
      from False f(1-3,5-7) d1 d2 p ix show ?thesis
        unfolding r sum.case by (intro exI[of _ index]) auto
    qed
  qed
qed

text \<open>
  The partial
  \<^verbatim>\<open>{ title: '\u00A0 Pay the rent \t\u00A0', description: '', dueDate: null, completed: undefined }\<close>
  on the one-item store: the title is stored without the white space at its ends, the
  no-break spaces included.
\<close>

theorem update_applies_present_values_witness:
  "''a'' \<in> todoId ` set (persisted sampleEnv sampleWorld)
   \<and> uTitle rentPartial = Value (CHR 0xA0 # '' Pay the rent '' @ [CHR 0x09, CHR 0xA0])
   \<and> uDescription rentPartial = Value []
   \<and> uCompleted rentPartial \<in> {Absent, Undefined}
   \<and> uDueDate rentPartial \<in> {Undefined, Value None, Value (Some [])}
   \<and> (\<exists>u. fst (todoApi_update sampleEnv ''a'' rentPartial sampleWorld) = Inr u
         \<and> title u = ''Pay the rent''
         \<and> description u = []
         \<and> completed u = completed sampleTodo
         \<and> dueDate u = None
         \<and> updatedAt u = 1700000000000
         \<and> persisted sampleEnv (snd (todoApi_update sampleEnv ''a'' rentPartial sampleWorld)) = [u])"
proof -
  have h1: "''a'' \<in> todoId ` set (persisted sampleEnv sampleWorld)"
    by (simp add: persisted_sampleWorld sampleTodo_def)
  have h2: "uTitle rentPartial = Value (CHR 0xA0 # '' Pay the rent '' @ [CHR 0x09, CHR 0xA0])"
    and h3: "uDescription rentPartial = Value []"
    and h4: "uCompleted rentPartial \<in> {Absent, Undefined}"
    and h5: "uDueDate rentPartial \<in> {Undefined, Value None, Value (Some [])}"
    by (simp_all add: rentPartial_def)
  have h6: "\<forall>s. uDueDate rentPartial = Value (Some s) \<and> s \<noteq> [] \<longrightarrow> Date_parse sampleEnv s \<noteq> None"
    by (simp add: rentPartial_def)
  note A = update_applies_present_values[where e=sampleEnv and w=sampleWorld and input=rentPartial,
      OF h1 surjective_pairing]
  from A h6 obtain u where u: "fst (todoApi_update sampleEnv ''a'' rentPartial sampleWorld) = Inr u"
    by blast
  note A' = A[unfolded u sum.case sample_index]
  from A' h2 have t: "title u = trim (CHR 0xA0 # '' Pay the rent '' @ [CHR 0x09, CHR 0xA0])"
    by blast
  from A' h3 have d: "description u = trim []" by blast
  from A' h4 have c: "completed u = completed (persisted sampleEnv sampleWorld ! 0)" by blast
  from A' h5 have dd: "dueDate u = None" by blast
  from A' have up: "updatedAt u = clock_at sampleEnv (clockReads sampleWorld)" by blast
  from A' have p: "persisted sampleEnv (snd (todoApi_update sampleEnv ''a'' rentPartial sampleWorld))
      = (persisted sampleEnv sampleWorld)[0 := u]" by blast
  have t': "title u = ''Pay the rent''"
    unfolding t by (rule trim_rent)
  have d': "description u = []"
    using d by (simp add: trim_def)
  have c': "completed u = completed sampleTodo"
    using c by (simp add: persisted_sampleWorld)
  have up': "updatedAt u = 1700000000000"
    using up by (simp add: sampleEnv_def sampleWorld_def)
  have p': "persisted sampleEnv (snd (todoApi_update sampleEnv ''a'' rentPartial sampleWorld)) = [u]"
    using p by (simp add: persisted_sampleWorld)
  from h1 h2 h3 h4 h5 u t' d' c' dd up' p' show ?thesis
    by blast
qed

subsection \<open>C3: deleting an id that is not there\<close>

text \<open>
  C3 as stated fails on the empty collection: every operation starts with
  \<^verbatim>\<open>ensureSeedData(readStore())\<close>, so \<^verbatim>\<open>delete\<close> of an unknown id on the empty store
  fails with NotFound after the three seed items have been persisted.
\<close>

theorem delete_missing_id_counterexample:
  "''nope'' \<notin> todoId ` set (persisted sampleEnv emptyWorld)
   \<and> fst (todoApi_delete sampleEnv ''nope'' emptyWorld) = Inl NotFound
   \<and> persisted sampleEnv emptyWorld = []
   \<and> length (persisted sampleEnv (snd (todoApi_delete sampleEnv ''nope'' emptyWorld))) = 3
   \<and> persisted sampleEnv (snd (todoApi_delete sampleEnv ''nope'' emptyWorld))
        \<noteq> persisted sampleEnv emptyWorld"
proof -
  have f: "findIndex (\<lambda>t. todoId t = ''nope'')
             (seedTodos sampleEnv (clock_at sampleEnv (clockReads emptyWorld)) (nanoidCalls emptyWorld)) = None"
    by (simp add: seedTodos_def sampleEnv_def)
  show ?thesis
    by (simp add: delete_empty[OF persisted_emptyWorld] persisted_emptyWorld Let_def f
        persisted_persist length_seedTodos seedTodos_nonempty)
qed

text \<open>
  C3, amended. For every id that is not in the persisted collection: when the collection
  is not empty, \<^verbatim>\<open>delete(id)\<close> fails with NotFound, the persisted collection and the item
  in the local storage are the ones before the call, and \<open>persist\<close> is not called; when the
  collection is empty and the id is not one of the ids just generated for the seed,
  \<^verbatim>\<open>delete(id)\<close> fails with NotFound and leaves the seed persisted.
\<close>

theorem delete_missing_id_nonempty:
  assumes "i \<notin> todoId ` set (persisted e w)"
  shows "(persisted e w \<noteq> [] \<longrightarrow>
            fst (todoApi_delete e i w) = Inl NotFound
          \<and> persisted e (snd (todoApi_delete e i w)) = persisted e w
          \<and> localStorage (snd (todoApi_delete e i w)) = localStorage w
          \<and> persistCalls (snd (todoApi_delete e i w)) = persistCalls w)
     \<and> (persisted e w = [] \<and> i \<notin> todoId ` set (seedTodos e (clock_at e (clockReads w)) (nanoidCalls w)) \<longrightarrow>
            fst (todoApi_delete e i w) = Inl NotFound
          \<and> persisted e (snd (todoApi_delete e i w)) = seedTodos e (clock_at e (clockReads w)) (nanoidCalls w))"
proof (intro conjI impI)
  assume ne: "persisted e w \<noteq> []"
  from assms have f: "findIndex (\<lambda>t. todoId t = i) (persisted e w) = None"
    by (auto simp: findIndex_None)
  show "fst (todoApi_delete e i w) = Inl NotFound"
    by (simp add: delete_nonempty[OF ne] f)
  show "persisted e (snd (todoApi_delete e i w)) = persisted e w"
    by (simp add: delete_nonempty[OF ne] f persisted_inMemoryStore_update)
  show "localStorage (snd (todoApi_delete e i w)) = localStorage w"
    by (simp add: delete_nonempty[OF ne] f)
  show "persistCalls (snd (todoApi_delete e i w)) = persistCalls w"
    by (simp add: delete_nonempty[OF ne] f)
next
  assume a: "persisted e w = [] \<and> i \<notin> todoId ` set (seedTodos e (clock_at e (clockReads w)) (nanoidCalls w))"
  then have f: "findIndex (\<lambda>t. todoId t = i) (seedTodos e (clock_at e (clockReads w)) (nanoidCalls w)) = None"
    by (auto simp: findIndex_None)
  from a have em: "persisted e w = []" by simp
  show "fst (todoApi_delete e i w) = Inl NotFound"
    by (simp add: delete_empty[OF em] Let_def f)
  show "persisted e (snd (todoApi_delete e i w)) = seedTodos e (clock_at e (clockReads w)) (nanoidCalls w)"
    by (simp add: delete_empty[OF em] Let_def f persisted_persist)
qed

text \<open>Both cases in the sample environment: the one-item store and the empty store.\<close>

theorem delete_missing_id_nonempty_witness:
  "''nope'' \<notin> todoId ` set (persisted sampleEnv sampleWorld)
   \<and> persisted sampleEnv sampleWorld \<noteq> []
   \<and> fst (todoApi_delete sampleEnv ''nope'' sampleWorld) = Inl NotFound
   \<and> persisted sampleEnv (snd (todoApi_delete sampleEnv ''nope'' sampleWorld)) = [sampleTodo]
   \<and> persisted sampleEnv emptyWorld = []
   \<and> ''nope'' \<notin> todoId ` set (seedTodos sampleEnv (clock_at sampleEnv (clockReads emptyWorld)) (nanoidCalls emptyWorld))
   \<and> fst (todoApi_delete sampleEnv ''nope'' emptyWorld) = Inl NotFound"
proof -
  have h1: "''nope'' \<notin> todoId ` set (persisted sampleEnv sampleWorld)"
    by (simp add: persisted_sampleWorld sampleTodo_def)
  have h2: "persisted sampleEnv sampleWorld \<noteq> []"
    by (simp add: persisted_sampleWorld)
  have h3: "''nope'' \<notin> todoId ` set (persisted sampleEnv emptyWorld)"
    by (simp add: persisted_emptyWorld)
  have h4: "''nope'' \<notin> todoId ` set (seedTodos sampleEnv (clock_at sampleEnv (clockReads emptyWorld)) (nanoidCalls emptyWorld))"
    by (simp add: seedTodos_def sampleEnv_def)
  from delete_missing_id_nonempty[OF h1] delete_missing_id_nonempty[OF h3] h1 h2 h4 persisted_emptyWorld
  show ?thesis by (simp add: persisted_sampleWorld)
qed

subsection \<open>C4: seeding is idempotent\<close>

text \<open>
  C4. On the empty collection \<open>ensureSeedData\<close> returns the three seed items (fixed titles,
  descriptions and completion flags; ids from \<^verbatim>\<open>nanoid\<close>, timestamps from the clock) and
  calls \<open>persist\<close> exactly once, after which the persisted collection is the seed. On a
  non-empty collection it returns the collection and leaves the whole state as it was, so
  nothing is persisted. Applied to its own result it changes nothing, and so does a second
  \<^verbatim>\<open>ensureSeedData(readStore())\<close>: a non-empty collection is never seeded again.
\<close>

theorem ensureSeedData_idempotent:
  "(case ensureSeedData e [] w of
      (r, w1) \<Rightarrow>
          r = seedTodos e (clock_at e (clockReads w)) (nanoidCalls w)
        \<and> length r = 3
        \<and> map title r =
            [''Plan weekly sprint'', ''Refactor authentication module'', ''Archive stale feature flags'']
        \<and> map completed r = [False, False, True]
        \<and> persisted e w1 = r
        \<and> persistCalls w1 = Suc (persistCalls w))
   \<and> (todos \<noteq> [] \<longrightarrow> ensureSeedData e todos w = (todos, w))
   \<and> (case ensureSeedData e todos w of
        (r, w1) \<Rightarrow> r \<noteq> [] \<and> ensureSeedData e r w1 = (r, w1))
   \<and> (case loadTodos e w of
        (r, w1) \<Rightarrow> r \<noteq> [] \<and> loadTodos e w1 = (r, w1))"
proof (intro conjI)
  show "case ensureSeedData e [] w of
      (r, w1) \<Rightarrow>
          r = seedTodos e (clock_at e (clockReads w)) (nanoidCalls w)
        \<and> length r = 3
        \<and> map title r =
            [''Plan weekly sprint'', ''Refactor authentication module'', ''Archive stale feature flags'']
        \<and> map completed r = [False, False, True]
        \<and> persisted e w1 = r
        \<and> persistCalls w1 = Suc (persistCalls w)"
    by (simp add: ensureSeedData_empty persisted_persist persistCalls_persist length_seedTodos)
      (simp add: seedTodos_def)
  show "todos \<noteq> [] \<longrightarrow> ensureSeedData e todos w = (todos, w)"
    by (simp add: ensureSeedData_nonempty)
  show "case ensureSeedData e todos w of
        (r, w1) \<Rightarrow> r \<noteq> [] \<and> ensureSeedData e r w1 = (r, w1)"
    by (cases "todos = []")
      (simp_all add: ensureSeedData_empty ensureSeedData_nonempty seedTodos_nonempty)
  show "case loadTodos e w of
        (r, w1) \<Rightarrow> r \<noteq> [] \<and> loadTodos e w1 = (r, w1)"
    using loadTodos_twice[of e w] loadTodos_result_nonempty[of e w]
    by (simp add: case_prod_beta)
qed

text \<open>The one-item store is returned as it is; the empty store is seeded once.\<close>

theorem ensureSeedData_idempotent_witness:
  "[sampleTodo] \<noteq> []
   \<and> ensureSeedData sampleEnv [sampleTodo] sampleWorld = ([sampleTodo], sampleWorld)
   \<and> length (fst (ensureSeedData sampleEnv [] emptyWorld)) = 3
   \<and> persistCalls (snd (ensureSeedData sampleEnv [] emptyWorld)) = 1
   \<and> ensureSeedData sampleEnv (fst (ensureSeedData sampleEnv [] emptyWorld))
        (snd (ensureSeedData sampleEnv [] emptyWorld)) = ensureSeedData sampleEnv [] emptyWorld"
proof -
  have h: "[sampleTodo] \<noteq> []" by simp
  have c: "persistCalls emptyWorld = 0" by (simp add: emptyWorld_def)
  from ensureSeedData_idempotent[of sampleEnv sampleWorld "[sampleTodo]"] h
  have 1: "ensureSeedData sampleEnv [sampleTodo] sampleWorld = ([sampleTodo], sampleWorld)"
    by blast
  note T = ensureSeedData_idempotent[of sampleEnv emptyWorld "[]", unfolded case_prod_beta]
  from T have 2: "length (fst (ensureSeedData sampleEnv [] emptyWorld)) = 3"
    and 3: "persistCalls (snd (ensureSeedData sampleEnv [] emptyWorld)) = Suc (persistCalls emptyWorld)"
    and 4: "ensureSeedData sampleEnv (fst (ensureSeedData sampleEnv [] emptyWorld))
        (snd (ensureSeedData sampleEnv [] emptyWorld)) =
          (fst (ensureSeedData sampleEnv [] emptyWorld), snd (ensureSeedData sampleEnv [] emptyWorld))"
    by blast+
  from h 1 2 3 4 c show ?thesis by simp
qed

subsection \<open>C5: the store shim hands out independent copies\<close>

text \<open>
  C5. For every collection that lives in the heap (an allocated array of todos), writing it
  with \<open>persistH\<close> and reading it back yields a collection equal to the one written,
  field for field (in the value model: \<open>readStore\<close> after \<open>persist\<close> returns the list
  written). For every well-formed heap, and so for the heap after a \<open>persistH\<close>, the copy
  that \<open>readStoreH\<close> returns shares no object with the array of the store, and after any
  mutation of the returned copy (any change to the objects of the copy, any allocation of
  new objects) the next read, and the read after it, return the collection that the first
  read returned. The store does not share an object with the array it was given either:
  after \<open>persistH\<close>, any mutation of that array leaves the next read unchanged.
\<close>

theorem persist_read_roundtrip_no_alias:
  "(allocated h todos \<longrightarrow>
        readBack e (persistH e todos h) = JSON_stringify h todos
      \<and> wellFormedH (persistH e todos h))
   \<and> (wellFormedH g \<and> readStoreH e g = (r, g1) \<and> mutatedCopy g1 r g2 \<longrightarrow>
        JSON_stringify g1 r = readBack e g
      \<and> objectsOf g1 r \<inter> objectsOf g1 (inMemoryStoreRef g1) = {}
      \<and> readBack e g1 = readBack e g
      \<and> readBack e g2 = readBack e g
      \<and> wellFormedH (snd (readStoreH e g2))
      \<and> readBack e (snd (readStoreH e g2)) = readBack e g)
   \<and> (allocated h todos \<and> readStoreH e (persistH e todos h) = (r', g1')
        \<and> mutatedCopy g1' r' g2' \<longrightarrow>
        JSON_stringify g1' r' = JSON_stringify h todos
      \<and> readBack e g2' = JSON_stringify h todos)
   \<and> (allocated h todos \<and> mutatedCopy (persistH e todos h) todos g3 \<longrightarrow>
        objectsOf (persistH e todos h) todos
          \<inter> objectsOf (persistH e todos h) (inMemoryStoreRef (persistH e todos h)) = {}
      \<and> readBack e g3 = JSON_stringify h todos)
   \<and> fst (readStore e (persist e v w)) = v"
proof (intro conjI impI)
  assume "allocated h todos"
  then show "readBack e (persistH e todos h) = JSON_stringify h todos"
    and "wellFormedH (persistH e todos h)"
    by (simp_all add: readBack_storedValue persistH_facts)
next
  assume a: "wellFormedH g \<and> readStoreH e g = (r, g1) \<and> mutatedCopy g1 r g2"
  then have wf: "wellFormedH g" and rd: "r = fst (readStoreH e g)" "g1 = snd (readStoreH e g)"
    and mu: "mutatedCopy g1 r g2"
    by simp_all
  note F = readStoreH_facts[OF wf, of e, folded rd]
  note M = mutatedCopy_storedValue(1)[OF F(1) F(3) mu, of e] mutatedCopy_storedValue(2)[OF F(1) F(3) mu]
  note F2 = readStoreH_facts[OF M(2), of e]
  show "JSON_stringify g1 r = readBack e g"
    by (simp add: rd readBack_def case_prod_beta)
  show "objectsOf g1 r \<inter> objectsOf g1 (inMemoryStoreRef g1) = {}"
    by (rule F(3))
  show "readBack e g1 = readBack e g"
    by (simp add: readBack_storedValue F(2))
  show "readBack e g2 = readBack e g"
    by (simp add: readBack_storedValue M(1) F(2))
  show "wellFormedH (snd (readStoreH e g2))"
    by (rule F2(1))
  show "readBack e (snd (readStoreH e g2)) = readBack e g"
    by (simp add: readBack_storedValue F2(2) M(1) F(2))
next
  assume a: "allocated h todos \<and> readStoreH e (persistH e todos h) = (r', g1')
      \<and> mutatedCopy g1' r' g2'"
  let ?g = "persistH e todos h"
  from a have al: "allocated h todos" and rd: "r' = fst (readStoreH e ?g)" "g1' = snd (readStoreH e ?g)"
    and mu: "mutatedCopy g1' r' g2'"
    by simp_all
  note P = persistH_facts(1,2)[OF al, of e]
  note F = readStoreH_facts[OF P(1), of e, folded rd]
  note M = mutatedCopy_storedValue(1)[OF F(1) F(3) mu, of e]
  have "JSON_stringify g1' r' = readBack e ?g"
    by (simp add: rd readBack_def case_prod_beta)
  then show "JSON_stringify g1' r' = JSON_stringify h todos"
    by (simp add: readBack_storedValue P(2))
  show "readBack e g2' = JSON_stringify h todos"
    by (simp add: readBack_storedValue M F(2) P(2))
next
  assume a: "allocated h todos \<and> mutatedCopy (persistH e todos h) todos g3"
  then have al: "allocated h todos" and mu: "mutatedCopy (persistH e todos h) todos g3"
    by simp_all
  note P = persistH_facts(1,2,5)[OF al, of e]
  show "objectsOf (persistH e todos h) todos
      \<inter> objectsOf (persistH e todos h) (inMemoryStoreRef (persistH e todos h)) = {}"
    by (rule P(3))
  show "readBack e g3 = JSON_stringify h todos"
    by (simp add: readBack_storedValue mutatedCopy_storedValue(1)[OF P(1) P(3) mu] P(2))
next
  show "fst (readStore e (persist e v w)) = v"
    using persisted_persist[of e v w] by (simp add: persisted_def)
qed

text \<open>
  Without browser storage: the caller's array at address 3 is persisted (copy at 4 to 6)
  and read back (copy at 7 to 9); the caller then overwrites the first object of the copy.
  The copy shows the change, the next read does not. Nor does it when the caller overwrites
  the first object of the array it persisted.
\<close>

theorem persist_read_roundtrip_no_alias_witness:
  "allocated callerHeap 3
   \<and> JSON_stringify callerHeap 3 = [olderTodo, sampleTodo]
   \<and> readBack nodeEnv (persistH nodeEnv 3 callerHeap) = [olderTodo, sampleTodo]
   \<and> wellFormedH (persistH nodeEnv 3 callerHeap)
   \<and> readStoreH nodeEnv (persistH nodeEnv 3 callerHeap)
       = (9, snd (readStoreH nodeEnv (persistH nodeEnv 3 callerHeap)))
   \<and> mutatedCopy (snd (readStoreH nodeEnv (persistH nodeEnv 3 callerHeap))) 9
        (writeCell 7 (TodoObj (olderTodo\<lparr>title := ''changed''\<rparr>))
          (snd (readStoreH nodeEnv (persistH nodeEnv 3 callerHeap))))
   \<and> JSON_stringify
        (writeCell 7 (TodoObj (olderTodo\<lparr>title := ''changed''\<rparr>))
          (snd (readStoreH nodeEnv (persistH nodeEnv 3 callerHeap)))) 9
       = [olderTodo\<lparr>title := ''changed''\<rparr>, sampleTodo]
   \<and> readBack nodeEnv
        (writeCell 7 (TodoObj (olderTodo\<lparr>title := ''changed''\<rparr>))
          (snd (readStoreH nodeEnv (persistH nodeEnv 3 callerHeap))))
       = [olderTodo, sampleTodo]
   \<and> mutatedCopy (persistH nodeEnv 3 callerHeap) 3
        (writeCell 1 (TodoObj (olderTodo\<lparr>title := ''changed''\<rparr>))
          (persistH nodeEnv 3 callerHeap))
   \<and> readBack nodeEnv
        (writeCell 1 (TodoObj (olderTodo\<lparr>title := ''changed''\<rparr>))
          (persistH nodeEnv 3 callerHeap))
       = [olderTodo, sampleTodo]"
proof -
  let ?g = "persistH nodeEnv 3 callerHeap"
  let ?g1 = "snd (readStoreH nodeEnv ?g)"
  let ?g2 = "writeCell 7 (TodoObj (olderTodo\<lparr>title := ''changed''\<rparr>)) ?g1"
  let ?g3 = "writeCell 1 (TodoObj (olderTodo\<lparr>title := ''changed''\<rparr>)) ?g"
  note T = persist_read_roundtrip_no_alias[where h=callerHeap and todos=3 and e=nodeEnv
      and g="?g" and r=9 and ?g1.0="?g1" and ?g2.0="?g2"
      and r'=9 and g1'="?g1" and g2'="?g2" and ?g3.0="?g3"]
  have h1: "allocated callerHeap 3"
    by (rule allocated_callerHeap)
  from T h1 have rt: "readBack nodeEnv ?g = JSON_stringify callerHeap 3" and wf: "wellFormedH ?g"
    by blast+
  have rd: "readStoreH nodeEnv ?g = (9, ?g1)"
    using sample_read(1) by (metis prod.collapse)
  have "7 \<in> objectsOf ?g1 9"
    by (simp add: objectsOf_def sample_read(2))
  then have mu: "mutatedCopy ?g1 9 ?g2"
    by (rule writeCell_mutatedCopy)
  from T wf rd mu have ind: "readBack nodeEnv ?g2 = readBack nodeEnv ?g"
    by blast
  have ch: "JSON_stringify ?g2 9 = [olderTodo\<lparr>title := ''changed''\<rparr>, sampleTodo]"
    by code_simp
  have "1 \<in> objectsOf ?g 3"
    by (simp add: objectsOf_def sample_persist)
  then have mu3: "mutatedCopy ?g 3 ?g3"
    by (rule writeCell_mutatedCopy)
  from T h1 mu3 have ind3: "readBack nodeEnv ?g3 = JSON_stringify callerHeap 3"
    by blast
  from h1 rt wf rd mu ind ch mu3 ind3 show ?thesis
    by (simp add: callerHeap_facts(3))
qed

subsection \<open>C6: the empty partial\<close>

text \<open>
  C6. For every id that exists in the persisted collection, \<^verbatim>\<open>update(id, {})\<close> returns the
  first item with that id with only \<open>updatedAt\<close> changed (to the clock reading): its id,
  title, description, dueDate, completed and createdAt are as before, the persisted
  collection has the returned item at that position, and every other position is unchanged.
\<close>

theorem update_empty_partial_changes_only_updatedAt:
  assumes "i \<in> todoId ` set (persisted e w)"
    and "todoApi_update e i emptyPartial w = (r, w')"
  shows "\<exists>index u. index < length (persisted e w)
     \<and> todoId (persisted e w ! index) = i
     \<and> (\<forall>j<index. todoId (persisted e w ! j) \<noteq> i)
     \<and> r = Inr u
     \<and> todoId u = todoId (persisted e w ! index)
     \<and> title u = title (persisted e w ! index)
     \<and> description u = description (persisted e w ! index)
     \<and> dueDate u = dueDate (persisted e w ! index)
     \<and> completed u = completed (persisted e w ! index)
     \<and> createdAt u = createdAt (persisted e w ! index)
     \<and> updatedAt u = clock_at e (clockReads w)
     \<and> u = (persisted e w ! index)\<lparr>updatedAt := clock_at e (clockReads w)\<rparr>
     \<and> persisted e w' = (persisted e w)[index := u]
     \<and> length (persisted e w') = length (persisted e w)
     \<and> (\<forall>k<length (persisted e w). k \<noteq> index \<longrightarrow> persisted e w' ! k = persisted e w ! k)"
proof -
  from assms(1) obtain index where ix:
    "findIndex (\<lambda>t. todoId t = i) (persisted e w) = Some index"
    "index < length (persisted e w)" "todoId (persisted e w ! index) = i"
    "\<forall>j<index. todoId (persisted e w ! j) \<noteq> i"
    by (rule existing_index)
  let ?u = "(persisted e w ! index)\<lparr>updatedAt := clock_at e (clockReads w)\<rparr>"
  from assms(2) have r: "r = Inr ?u" and w': "persisted e w' = (persisted e w)[index := ?u]"
    by (auto simp: update_found[OF ix(1)] emptyPartial_def hasKey_def applyUpdate_def persisted_persist)
  from ix r w' show ?thesis
    by (intro exI[of _ index] exI[of _ ?u]) simp
qed

text \<open>The one-item store in the sample environment.\<close>

theorem update_empty_partial_witness:
  "''a'' \<in> todoId ` set (persisted sampleEnv sampleWorld)
   \<and> fst (todoApi_update sampleEnv ''a'' emptyPartial sampleWorld) = Inr (sampleTodo\<lparr>updatedAt := 1700000000000\<rparr>)
   \<and> persisted sampleEnv (snd (todoApi_update sampleEnv ''a'' emptyPartial sampleWorld)) = [sampleTodo\<lparr>updatedAt := 1700000000000\<rparr>]"
proof -
  have h: "''a'' \<in> todoId ` set (persisted sampleEnv sampleWorld)"
    by (simp add: persisted_def readStore_def sampleEnv_def sampleWorld_def sampleTodo_def clone_def)
  have p: "persisted sampleEnv sampleWorld = [sampleTodo]"
    by (simp add: persisted_def readStore_def sampleEnv_def sampleWorld_def clone_def)
  have c: "clock_at sampleEnv (clockReads sampleWorld) = 1700000000000"
    by (simp add: sampleEnv_def sampleWorld_def)
  from update_empty_partial_changes_only_updatedAt[OF h surjective_pairing] h
  show ?thesis
    by (auto simp: p c)
qed

subsection \<open>C7: create\<close>




subsection \<open>C8: list\<close>

text \<open>
  C8 as stated fails on two kinds of store. When the stored text is \<^verbatim>\<open>null\<close>,
  \<^verbatim>\<open>JSON.parse\<close> accepts it, \<^verbatim>\<open>readStore\<close> returns \<^verbatim>\<open>null\<close> and \<^verbatim>\<open>ensureSeedData\<close> throws a
  TypeError at \<^verbatim>\<open>todos.length\<close>: \<^verbatim>\<open>list\<close> does not succeed. When a stored record has a
  \<^verbatim>\<open>createdAt\<close> that is not a date, the comparator yields NaN for every pair with that
  record and the sort leaves the two records of the store as they are; the \<^verbatim>\<open>createdAt\<close> of
  the first is then not greater than or equal to that of the second, whose time value is
  NaN (nor the other way round: no order of the two records is descending).
\<close>

theorem list_counterexample:
  "rawLocalStorage nullStore = JsonText JsNull
   \<and> fst (todoApi_listRaw rawEnv nullStore) = Inl TypeError
   \<and> rawLocalStorage undatedStore = JsonText (JsTodos [storedRent, storedUndated])
   \<and> sCreatedAt storedUndated = ''not a date''
   \<and> getTime rawEnv (sCreatedAt storedUndated) = None
   \<and> fst (todoApi_listRaw rawEnv undatedStore) = Inr [storedRent, storedUndated]
   \<and> \<not> createdAtNotBefore rawEnv storedRent storedUndated
   \<and> \<not> createdAtNotBefore rawEnv storedUndated storedRent"
proof -
  have 1: "rawLocalStorage nullStore = JsonText JsNull"
    by (simp add: nullStore_def emptyStore_def)
  have 2: "fst (todoApi_listRaw rawEnv nullStore) = Inl TypeError"
    by (simp add: listRaw_null persistedRaw_samples)
  have 3: "rawLocalStorage undatedStore = JsonText (JsTodos [storedRent, storedUndated])"
    by (simp add: undatedStore_def emptyStore_def)
  have 4: "sCreatedAt storedUndated = ''not a date''"
    by (simp add: storedUndated_def)
  have 5: "getTime rawEnv (sCreatedAt storedUndated) = None"
    unfolding 4 by (rule getTime_rawEnv)
  have "sortByCreatedAtDescRaw rawEnv [storedRent, storedUndated] = [storedRent, storedUndated]"
    by (simp add: sortByCreatedAtDescRaw_def compareCreatedAtDescRaw_def sortCompare_def 5)
  then have 6: "fst (todoApi_listRaw rawEnv undatedStore) = Inr [storedRent, storedUndated]"
    by (simp add: listRaw_nonempty[OF persistedRaw_samples(4)])
  have 7: "\<not> createdAtNotBefore rawEnv storedRent storedUndated"
    by (simp add: createdAtNotBefore_def 5 split: option.splits)
  have 8: "\<not> createdAtNotBefore rawEnv storedUndated storedRent"
    by (simp add: createdAtNotBefore_def 5 split: option.splits)
  from 1 2 3 4 5 6 7 8 show ?thesis
    by blast
qed

text \<open>
  C8, amended. For every store state whose value is an array of \<^verbatim>\<open>Todo\<close> records (the
  stored text is absent, empty or rejected by \<^verbatim>\<open>JSON.parse\<close> and the in-process copy is
  such an array, or the stored text is the JSON text of such an array) in which every
  \<^verbatim>\<open>createdAt\<close> is a date, \<^verbatim>\<open>list()\<close> succeeds: it returns a list that holds exactly the
  records of the store (the given ones when the array is not empty, the seed when it is,
  which is then what the store holds), and in the returned list the \<^verbatim>\<open>createdAt\<close> of every
  record is greater than or equal to that of the record after it (and of every later
  record). For the seed this takes that the strings which \<^verbatim>\<open>toISOString\<close> gives for the
  three \<^verbatim>\<open>createdAt\<close> of the seed are dates with these time values.
\<close>

theorem list_returns_all_sorted_on_dated_todos:
  assumes "persistedRaw e s = JsTodos xs"
    and "\<forall>x\<in>set xs. getTime e (sCreatedAt x) \<noteq> None"
    and "xs = [] \<longrightarrow>
           isoRoundTrip e (clock_at e (rawClockReads s))
         \<and> isoRoundTrip e (clock_at e (rawClockReads s) - day_ms * 2)
         \<and> isoRoundTrip e (clock_at e (rawClockReads s) - day_ms * 7)"
  shows "\<exists>r. fst (todoApi_listRaw e s) = Inr r
     \<and> (\<exists>ys. persistedRaw e (snd (todoApi_listRaw e s)) = JsTodos ys \<and> mset r = mset ys)
     \<and> (xs \<noteq> [] \<longrightarrow> mset r = mset xs)
     \<and> (xs = [] \<longrightarrow>
          mset r = mset (seedTodosRaw e (clock_at e (rawClockReads s)) (rawNanoidCalls s)))
     \<and> successively (createdAtNotBefore e) r
     \<and> (\<forall>k. Suc k < length r \<longrightarrow> createdAtNotBefore e (r ! k) (r ! Suc k))
     \<and> (\<forall>j k. j < k \<and> k < length r \<longrightarrow> createdAtNotBefore e (r ! j) (r ! k))"
proof -
  let ?seed = "seedTodosRaw e (clock_at e (rawClockReads s)) (rawNanoidCalls s)"
  define todos where "todos = (if xs = [] then ?seed else xs)"
  let ?r = "sortByCreatedAtDescRaw e todos"
  have d: "\<forall>x\<in>set todos. getTime e (sCreatedAt x) \<noteq> None"
  proof (cases "xs = []")
    case True
    with assms(3) have "\<forall>x\<in>set ?seed. getTime e (sCreatedAt x) \<noteq> None"
      by (intro seedTodosRaw_dated) simp_all
    with True show ?thesis
      by (simp add: todos_def)
  next
    case False
    with assms(2) show ?thesis
      by (simp add: todos_def)
  qed
  have s: "sorted_wrt (createdAtNotBefore e) ?r"
    using d by (rule sorted_sortByCreatedAtDescRaw)
  have 1: "fst (todoApi_listRaw e s) = Inr ?r"
    using assms(1) by (cases "xs = []") (simp_all add: listRaw_empty listRaw_nonempty todos_def)
  have p: "persistedRaw e (snd (todoApi_listRaw e s)) = JsTodos todos"
  proof (cases "xs = []")
    case True
    with assms(1) show ?thesis
      by (simp add: listRaw_empty persistedRaw_persistRaw todos_def)
  next
    case False
    from persistedRaw_rawInMemoryStore_update[of e s] assms(1)
    have "persistedRaw e (s\<lparr>rawInMemoryStore := JsTodos xs\<rparr>) = JsTodos xs"
      by simp
    with assms(1) False show ?thesis
      by (simp add: listRaw_nonempty todos_def)
  qed
  have 2: "\<exists>ys. persistedRaw e (snd (todoApi_listRaw e s)) = JsTodos ys \<and> mset ?r = mset ys"
    using p by (simp add: mset_sortByCreatedAtDescRaw)
  have 3: "xs \<noteq> [] \<longrightarrow> mset ?r = mset xs"
    by (simp add: mset_sortByCreatedAtDescRaw todos_def)
  have 4: "xs = [] \<longrightarrow> mset ?r = mset ?seed"
    by (simp add: mset_sortByCreatedAtDescRaw todos_def)
  have 5: "successively (createdAtNotBefore e) ?r"
    using s by (rule successively_if_sorted_wrt)
  have 7: "\<forall>j k. j < k \<and> k < length ?r \<longrightarrow> createdAtNotBefore e (?r ! j) (?r ! k)"
    using s by (auto simp: sorted_wrt_iff_nth_less)
  then have 6: "\<forall>k. Suc k < length ?r \<longrightarrow> createdAtNotBefore e (?r ! k) (?r ! Suc k)"
    by auto
  from 1 2 3 4 5 6 7 show ?thesis by blast
qed

text \<open>
  A store that holds the older record before the newer one is returned newest first; the
  store without an item gives the three seed records, newest first.
\<close>

theorem list_returns_all_sorted_on_dated_todos_witness:
  "persistedRaw rawEnv unsortedStore = JsTodos [storedBank, storedRent]
   \<and> getTime rawEnv (sCreatedAt storedBank) = Some 1680000000000
   \<and> getTime rawEnv (sCreatedAt storedRent) = Some 1690000000000
   \<and> [storedBank, storedRent] \<noteq> []
   \<and> (\<exists>r. fst (todoApi_listRaw rawEnv unsortedStore) = Inr r
         \<and> mset r = mset [storedBank, storedRent]
         \<and> Suc 0 < length r
         \<and> createdAtNotBefore rawEnv (r ! 0) (r ! Suc 0))
   \<and> fst (todoApi_listRaw rawEnv unsortedStore) = Inr [storedRent, storedBank]
   \<and> persistedRaw rawEnv emptyStore = JsTodos []
   \<and> isoRoundTrip rawEnv (clock_at rawEnv (rawClockReads emptyStore))
   \<and> isoRoundTrip rawEnv (clock_at rawEnv (rawClockReads emptyStore) - day_ms * 2)
   \<and> isoRoundTrip rawEnv (clock_at rawEnv (rawClockReads emptyStore) - day_ms * 7)
   \<and> (\<exists>r. fst (todoApi_listRaw rawEnv emptyStore) = Inr r
         \<and> size (mset r) = 3
         \<and> persistedRaw rawEnv (snd (todoApi_listRaw rawEnv emptyStore))
             = JsTodos (seedTodosRaw rawEnv 1700000000000 0)
         \<and> map sCreatedAt r
             = [''2023-11-14T22:13:20.000Z'', ''2023-11-12T22:13:20.000Z'',
                ''2023-11-07T22:13:20.000Z''])"
proof -
  have h1: "persistedRaw rawEnv unsortedStore = JsTodos [storedBank, storedRent]"
    by (rule persistedRaw_samples)
  have g1: "getTime rawEnv (sCreatedAt storedBank) = Some 1680000000000"
    and g2: "getTime rawEnv (sCreatedAt storedRent) = Some 1690000000000"
    by (simp_all add: storedBank_def storedRent_def getTime_rawEnv)
  then have h2: "\<forall>x\<in>set [storedBank, storedRent]. getTime rawEnv (sCreatedAt x) \<noteq> None"
    by simp
  have h3: "[storedBank, storedRent] \<noteq> []"
    by simp
  have h3': "[storedBank, storedRent] = [] \<longrightarrow>
           isoRoundTrip rawEnv (clock_at rawEnv (rawClockReads unsortedStore))
         \<and> isoRoundTrip rawEnv (clock_at rawEnv (rawClockReads unsortedStore) - day_ms * 2)
         \<and> isoRoundTrip rawEnv (clock_at rawEnv (rawClockReads unsortedStore) - day_ms * 7)"
    by simp
  from list_returns_all_sorted_on_dated_todos[OF h1 h2 h3'] h3
  obtain r where r: "fst (todoApi_listRaw rawEnv unsortedStore) = Inr r"
    "mset r = mset [storedBank, storedRent]"
    "\<forall>k. Suc k < length r \<longrightarrow> createdAtNotBefore rawEnv (r ! k) (r ! Suc k)"
    by blast
  from r(2) have l: "length r = 2"
    using mset_eq_length by fastforce
  then have r4: "Suc 0 < length r" by simp
  with r(3) have r5: "createdAtNotBefore rawEnv (r ! 0) (r ! Suc 0)" by blast
  have c: "fst (todoApi_listRaw rawEnv unsortedStore) = Inr [storedRent, storedBank]"
    by (simp add: listRaw_nonempty[OF h1] sortByCreatedAtDescRaw_def compareCreatedAtDescRaw_def
        sortCompare_def storedBank_def storedRent_def getTime_rawEnv)
  have now: "clock_at rawEnv (rawClockReads emptyStore) = 1700000000000"
    and n0: "rawNanoidCalls emptyStore = 0"
    by (simp_all add: rawEnv_def emptyStore_def)
  have k1: "persistedRaw rawEnv emptyStore = JsTodos []"
    by (rule persistedRaw_samples)
  have k2: "\<forall>x\<in>set []. getTime rawEnv (sCreatedAt x) \<noteq> None"
    by simp
  have i1: "isoRoundTrip rawEnv (clock_at rawEnv (rawClockReads emptyStore))"
    and i2: "isoRoundTrip rawEnv (clock_at rawEnv (rawClockReads emptyStore) - day_ms * 2)"
    and i3: "isoRoundTrip rawEnv (clock_at rawEnv (rawClockReads emptyStore) - day_ms * 7)"
    unfolding now by (simp_all add: isoRoundTrip_def day_ms_def toISOString_rawEnv getTime_rawEnv)
  from i1 i2 i3 have k3: "[] = [] \<longrightarrow>
           isoRoundTrip rawEnv (clock_at rawEnv (rawClockReads emptyStore))
         \<and> isoRoundTrip rawEnv (clock_at rawEnv (rawClockReads emptyStore) - day_ms * 2)
         \<and> isoRoundTrip rawEnv (clock_at rawEnv (rawClockReads emptyStore) - day_ms * 7)"
    by blast
  from list_returns_all_sorted_on_dated_todos[OF k1 k2 k3]
  obtain r' ys where r': "fst (todoApi_listRaw rawEnv emptyStore) = Inr r'"
    "persistedRaw rawEnv (snd (todoApi_listRaw rawEnv emptyStore)) = JsTodos ys"
    "mset r' = mset (seedTodosRaw rawEnv (clock_at rawEnv (rawClockReads emptyStore)) (rawNanoidCalls emptyStore))"
    by blast
  from r'(3) have s3: "size (mset r') = 3"
    by (simp add: length_seedTodosRaw)
  have e1: "fst (todoApi_listRaw rawEnv emptyStore)
      = Inr (sortByCreatedAtDescRaw rawEnv (seedTodosRaw rawEnv 1700000000000 0))"
    by (simp add: listRaw_empty[OF k1] now n0)
  have e2: "persistedRaw rawEnv (snd (todoApi_listRaw rawEnv emptyStore))
      = JsTodos (seedTodosRaw rawEnv 1700000000000 0)"
    by (simp add: listRaw_empty[OF k1] now n0 persistedRaw_persistRaw)
  have e3: "map sCreatedAt (sortByCreatedAtDescRaw rawEnv (seedTodosRaw rawEnv 1700000000000 0))
      = [''2023-11-14T22:13:20.000Z'', ''2023-11-12T22:13:20.000Z'', ''2023-11-07T22:13:20.000Z'']"
    by (simp add: seedTodosRaw_def sortByCreatedAtDescRaw_def compareCreatedAtDescRaw_def
        sortCompare_def day_ms_def toISOString_rawEnv getTime_rawEnv)
  from r'(1) e1 have "r' = sortByCreatedAtDescRaw rawEnv (seedTodosRaw rawEnv 1700000000000 0)"
    by simp
  with e3 have s4: "map sCreatedAt r'
      = [''2023-11-14T22:13:20.000Z'', ''2023-11-12T22:13:20.000Z'', ''2023-11-07T22:13:20.000Z'']"
    by simp
  from r(1,2) r4 r5 have a: "\<exists>r. fst (todoApi_listRaw rawEnv unsortedStore) = Inr r
         \<and> mset r = mset [storedBank, storedRent]
         \<and> Suc 0 < length r
         \<and> createdAtNotBefore rawEnv (r ! 0) (r ! Suc 0)"
    by blast
  from r'(1) s3 e2 s4 have b: "\<exists>r. fst (todoApi_listRaw rawEnv emptyStore) = Inr r
         \<and> size (mset r) = 3
         \<and> persistedRaw rawEnv (snd (todoApi_listRaw rawEnv emptyStore))
             = JsTodos (seedTodosRaw rawEnv 1700000000000 0)
         \<and> map sCreatedAt r
             = [''2023-11-14T22:13:20.000Z'', ''2023-11-12T22:13:20.000Z'',
                ''2023-11-07T22:13:20.000Z'']"
    by (intro exI[of _ r'] conjI)
  from h1 g1 g2 h3 a c k1 i1 i2 i3 b show ?thesis
    by (intro conjI)
qed

subsection \<open>C9: an unparsable due date makes create and update throw\<close>

text \<open>
  C9. \<^verbatim>\<open>create\<close> and \<^verbatim>\<open>update\<close> are not total in \<^verbatim>\<open>dueDate\<close>: for an input whose
  \<^verbatim>\<open>dueDate\<close> is a non-empty string that does not parse as a date, \<^verbatim>\<open>create\<close> throws the
  RangeError of \<^verbatim>\<open>toISOString\<close>, which is not NotFound, and so does \<^verbatim>\<open>update\<close> of an
  existing id with that partial; neither call changes the persisted collection.
\<close>

theorem unparsable_dueDate_throws:
  assumes "s \<noteq> []" and "Date_parse e s = None"
  shows "fst (todoApi_create e (c\<lparr>cDueDate := Value (Some s)\<rparr>) w) = Inl RangeError
     \<and> persisted e (snd (todoApi_create e (c\<lparr>cDueDate := Value (Some s)\<rparr>) w)) = persisted e w
     \<and> (i \<in> todoId ` set (persisted e w) \<longrightarrow>
          fst (todoApi_update e i (u\<lparr>uDueDate := Value (Some s)\<rparr>) w) = Inl RangeError
        \<and> persisted e (snd (todoApi_update e i (u\<lparr>uDueDate := Value (Some s)\<rparr>) w)) = persisted e w)
     \<and> RangeError \<noteq> NotFound"
proof (intro conjI impI)
  have n: "normalizeDueDate e (Value (Some s)) = Inl RangeError"
    using assms by (rule normalizeDueDate_unparsable)
  show "fst (todoApi_create e (c\<lparr>cDueDate := Value (Some s)\<rparr>) w) = Inl RangeError"
    by (simp add: create_eq n)
  show "persisted e (snd (todoApi_create e (c\<lparr>cDueDate := Value (Some s)\<rparr>) w)) = persisted e w"
    by (simp add: create_eq n persisted_counters)
  show "RangeError \<noteq> NotFound" by simp
  assume "i \<in> todoId ` set (persisted e w)"
  then obtain index where ix: "findIndex (\<lambda>t. todoId t = i) (persisted e w) = Some index"
    by (rule existing_index)
  show "fst (todoApi_update e i (u\<lparr>uDueDate := Value (Some s)\<rparr>) w) = Inl RangeError"
    by (simp add: update_found[OF ix] n hasKey_def)
  show "persisted e (snd (todoApi_update e i (u\<lparr>uDueDate := Value (Some s)\<rparr>) w)) = persisted e w"
    by (simp add: update_found[OF ix] n hasKey_def persisted_inMemoryStore_update)
qed

text \<open>The string \<^verbatim>\<open>not a date\<close> in the sample environment.\<close>

theorem unparsable_dueDate_throws_witness:
  "''not a date'' \<noteq> [] \<and> Date_parse sampleEnv ''not a date'' = None
   \<and> ''a'' \<in> todoId ` set (persisted sampleEnv sampleWorld)
   \<and> fst (todoApi_create sampleEnv (buyMilk\<lparr>cDueDate := Value (Some ''not a date'')\<rparr>) sampleWorld)
        = Inl RangeError
   \<and> fst (todoApi_update sampleEnv ''a'' (emptyPartial\<lparr>uDueDate := Value (Some ''not a date'')\<rparr>) sampleWorld)
        = Inl RangeError"
proof -
  have h1: "''not a date'' \<noteq> []" by simp
  have h2: "Date_parse sampleEnv ''not a date'' = None"
    by (simp add: sampleEnv_def)
  have h3: "''a'' \<in> todoId ` set (persisted sampleEnv sampleWorld)"
    by (simp add: persisted_sampleWorld sampleTodo_def)
  from unparsable_dueDate_throws[OF h1 h2, of buyMilk sampleWorld "''a''" emptyPartial] h1 h2 h3
  show ?thesis by blast
qed

subsection \<open>C10: a falsy due date clears the field\<close>

text \<open>
  C10. For every existing id, \<^verbatim>\<open>update\<close> with the \<^verbatim>\<open>dueDate\<close> key present and equal to
  \<^verbatim>\<open>undefined\<close>, \<^verbatim>\<open>null\<close> or the empty string returns an item whose \<open>dueDate\<close> is null,
  stores that item, and gives the same result and the same store as the call with an
  explicit \<^verbatim>\<open>null\<close>; \<^verbatim>\<open>create\<close> with the empty string as \<^verbatim>\<open>dueDate\<close> returns an item whose
  \<open>dueDate\<close> is null, as with an explicit \<^verbatim>\<open>null\<close>.
\<close>

theorem falsy_dueDate_clears:
  "(i \<in> todoId ` set (persisted e w) \<and> uDueDate input \<in> {Undefined, Value None, Value (Some [])} \<longrightarrow>
      (\<exists>index u. findIndex (\<lambda>t. todoId t = i) (persisted e w) = Some index
         \<and> fst (todoApi_update e i input w) = Inr u
         \<and> dueDate u = None
         \<and> index < length (persisted e (snd (todoApi_update e i input w)))
         \<and> persisted e (snd (todoApi_update e i input w)) ! index = u
         \<and> todoApi_update e i input w = todoApi_update e i (input\<lparr>uDueDate := Value None\<rparr>) w))
   \<and> (cDueDate c = Value (Some []) \<longrightarrow>
      (\<exists>t. fst (todoApi_create e c w) = Inr t
         \<and> dueDate t = None
         \<and> todoApi_create e c w = todoApi_create e (c\<lparr>cDueDate := Value None\<rparr>) w))"
proof (intro conjI impI)
  assume a: "i \<in> todoId ` set (persisted e w) \<and> uDueDate input \<in> {Undefined, Value None, Value (Some [])}"
  then have "i \<in> todoId ` set (persisted e w)" by simp
  then obtain index where ix:
    "findIndex (\<lambda>t. todoId t = i) (persisted e w) = Some index" "index < length (persisted e w)"
    by (rule existing_index)
  from a have k: "hasKey (uDueDate input)"
    by (auto simp: hasKey_def)
  from a have n: "normalizeDueDate e (uDueDate input) = Inr None"
    by (auto intro: normalizeDueDate_falsy)
  have n': "normalizeDueDate e (Value None) = Inr None"
    by (simp add: normalizeDueDate_falsy)
  let ?u = "applyUpdate (persisted e w ! index) input None (clock_at e (clockReads w))"
  have 1: "todoApi_update e i input w =
      (Inr ?u, persist e ((persisted e w)[index := ?u])
         (w\<lparr>inMemoryStore := persisted e w, clockReads := Suc (clockReads w)\<rparr>))"
    by (simp add: update_found[OF ix(1)] k n)
  have 2: "todoApi_update e i (input\<lparr>uDueDate := Value None\<rparr>) w = todoApi_update e i input w"
    using k by (simp add: update_found[OF ix(1)] n n' hasKey_def applyUpdate_def)
  have 3: "dueDate ?u = None"
    by (simp add: applyUpdate_def k)
  show "\<exists>index u. findIndex (\<lambda>t. todoId t = i) (persisted e w) = Some index
         \<and> fst (todoApi_update e i input w) = Inr u
         \<and> dueDate u = None
         \<and> index < length (persisted e (snd (todoApi_update e i input w)))
         \<and> persisted e (snd (todoApi_update e i input w)) ! index = u
         \<and> todoApi_update e i input w = todoApi_update e i (input\<lparr>uDueDate := Value None\<rparr>) w"
    using ix 3 by (intro exI[of _ index] exI[of _ ?u]) (simp add: 1 2[unfolded 1] persisted_persist)
next
  assume a: "cDueDate c = Value (Some [])"
  then have n: "normalizeDueDate e (cDueDate c) = Inr None"
    by (simp add: normalizeDueDate_falsy)
  have n': "normalizeDueDate e (Value None) = Inr None"
    by (simp add: normalizeDueDate_falsy)
  show "\<exists>t. fst (todoApi_create e c w) = Inr t \<and> dueDate t = None
         \<and> todoApi_create e c w = todoApi_create e (c\<lparr>cDueDate := Value None\<rparr>) w"
    by (simp add: create_eq n n')
qed

text \<open>The sample item has a due date; both calls clear it.\<close>

theorem falsy_dueDate_clears_witness:
  "(''a'' \<in> todoId ` set (persisted sampleEnv sampleWorld)
      \<and> uDueDate (emptyPartial\<lparr>uDueDate := Undefined\<rparr>) \<in> {Undefined, Value None, Value (Some [])})
   \<and> cDueDate (buyMilk\<lparr>cDueDate := Value (Some [])\<rparr>) = Value (Some [])
   \<and> dueDate sampleTodo \<noteq> None
   \<and> (\<exists>u. fst (todoApi_update sampleEnv ''a'' (emptyPartial\<lparr>uDueDate := Undefined\<rparr>) sampleWorld) = Inr u
          \<and> dueDate u = None)
   \<and> (\<exists>t. fst (todoApi_create sampleEnv (buyMilk\<lparr>cDueDate := Value (Some [])\<rparr>) sampleWorld) = Inr t
          \<and> dueDate t = None)"
proof -
  have h1: "''a'' \<in> todoId ` set (persisted sampleEnv sampleWorld)
      \<and> uDueDate (emptyPartial\<lparr>uDueDate := Undefined\<rparr>) \<in> {Undefined, Value None, Value (Some [])}"
    by (simp add: persisted_sampleWorld sampleTodo_def)
  have h2: "cDueDate (buyMilk\<lparr>cDueDate := Value (Some [])\<rparr>) = Value (Some [])"
    by simp
  have h3: "dueDate sampleTodo \<noteq> None"
    by (simp add: sampleTodo_def)
  from falsy_dueDate_clears[of "''a''" sampleEnv sampleWorld "emptyPartial\<lparr>uDueDate := Undefined\<rparr>"
      "buyMilk\<lparr>cDueDate := Value (Some [])\<rparr>"] h1 h2 h3
  show ?thesis by blast
qed

end
